theory Spec2Isabelle
  imports Complex_Main
begin

section \<open>Strings and characters of the host language\<close>

text \<open>
  Strings are lists of 8-bit characters. The predicates below are the character classes of the
  regular expressions and of \<^verbatim>\<open>trim\<close> and \<^verbatim>\<open>parseInt\<close>, restricted to that range:
  white space is TAB, LF, VT, FF, CR, SPACE and NBSP; a line terminator is LF or CR.
\<close>

definition isDigit :: "char \<Rightarrow> bool" where
  "isDigit ch = (let n = (of_char ch :: nat) in 48 \<le> n \<and> n \<le> 57)"

definition isWordChar :: "char \<Rightarrow> bool" where
  "isWordChar ch = (let n = (of_char ch :: nat) in
     (97 \<le> n \<and> n \<le> 122) \<or> (65 \<le> n \<and> n \<le> 90) \<or> (48 \<le> n \<and> n \<le> 57) \<or> n = 95)"

definition isLineTerminator :: "char \<Rightarrow> bool" where
  "isLineTerminator ch = (let n = (of_char ch :: nat) in n = 10 \<or> n = 13)"

definition isWhiteSpace :: "char \<Rightarrow> bool" where
  "isWhiteSpace ch = (let n = (of_char ch :: nat) in
     n = 9 \<or> n = 10 \<or> n = 11 \<or> n = 12 \<or> n = 13 \<or> n = 32 \<or> n = 160)"

text \<open>
  Canonicalisation under the \<^verbatim>\<open>i\<close> flag (no \<^verbatim>\<open>u\<close> flag): a character is compared by its
  upper-case form; within 8 bits that moves a-z and the Latin-1 lower-case letters (except the
  division sign) down by 32 and leaves every other character alone (the upper-case forms of
  the micro sign and of y with diaeresis lie outside 8 bits, and no other 8-bit character
  shares them). The result is the code of the canonical character.
\<close>

definition canonicalize :: "bool \<Rightarrow> char \<Rightarrow> nat" where
  "canonicalize ignoreCase ch =
     (let n = (of_char ch :: nat) in
      if ignoreCase \<and> ((97 \<le> n \<and> n \<le> 122) \<or> (224 \<le> n \<and> n \<le> 254 \<and> n \<noteq> 247))
      then n - 32 else n)"

definition trim :: "string \<Rightarrow> string" where
  "trim s = rev (dropWhile isWhiteSpace (rev (dropWhile isWhiteSpace s)))"

fun join :: "string \<Rightarrow> string list \<Rightarrow> string" where
  "join sep [] = []"
| "join sep [s] = s"
| "join sep (s # rest) = s @ sep @ join sep rest"

definition digitChar :: "nat \<Rightarrow> char" where
  "digitChar d = (if d < 10 then ''0123456789'' ! d else CHR ''?'')"

fun showNat :: "nat \<Rightarrow> string" where
  "showNat n = (if n < 10 then [digitChar n] else showNat (n div 10) @ [digitChar (n mod 10)])"

declare showNat.simps [simp del]

section \<open>Numbers\<close>

text \<open>
  A Number is a double: a finite value, given here by the rational it denotes, NaN, or an
  infinity. The sign of zero is not kept: the two zeros are equal under every comparison the
  program makes and are written alike in a response.
\<close>

datatype number = Finite rat | NaN | PosInfinity | NegInfinity

text \<open>Two to the power \<open>k\<close>, and the number of binary digits of a positive integer.\<close>

definition pow2 :: "int \<Rightarrow> rat" where
  "pow2 k = (if 0 \<le> k then 2 ^ nat k else 1 / 2 ^ nat (- k))"

function bitLength :: "int \<Rightarrow> nat" where
  "bitLength n = (if n \<le> 0 then 0 else Suc (bitLength (n div 2)))"
  by pat_completeness auto

termination
  by (relation "measure nat") auto

declare bitLength.simps [simp del]

text \<open>
  The binary exponent \<open>e\<close> of a positive rational, \<open>pow2 e \<le> x < pow2 (e + 1)\<close>: the difference
  of the bit lengths of numerator and denominator, or one less.
\<close>

definition binaryExponent :: "rat \<Rightarrow> int" where
  "binaryExponent x =
     (let (p, q) = quotient_of x;
          d = int (bitLength p) - int (bitLength q)
      in if pow2 d \<le> x then d else d - 1)"

text \<open>The nearest integer, the even one of two that are equally near.\<close>

definition roundHalfEven :: "rat \<Rightarrow> int" where
  "roundHalfEven y =
     (let f = \<lfloor>y\<rfloor>; r = y - of_int f
      in if r < 1 / 2 then f else if 1 / 2 < r then f + 1 else if even f then f else f + 1)"

text \<open>
  The distance between neighbouring doubles around \<open>x\<close>: a double has 53 significant bits, and
  below \<open>pow2 (- 1022)\<close> the distance stays \<open>pow2 (- 1074)\<close>.
\<close>

definition ulp :: "rat \<Rightarrow> rat" where
  "ulp x = pow2 (max (binaryExponent \<bar>x\<bar>) (- 1022) - 52)"

text \<open>
  The Number value of a rational: the nearest double, the one with the even significand of two
  that are equally near, and an infinity where that rounding reaches \<open>pow2 1024\<close>. Every sum and
  quotient of doubles is the Number value of the exact result.
\<close>

definition numberValue :: "rat \<Rightarrow> number" where
  "numberValue x =
     (if x = 0 then Finite 0
      else
        let y = of_int (roundHalfEven (x / ulp x)) * ulp x
        in if pow2 1024 \<le> \<bar>y\<bar> then (if 0 < x then PosInfinity else NegInfinity)
           else Finite y)"

fun numAdd :: "number \<Rightarrow> number \<Rightarrow> number" where
  "numAdd (Finite a) (Finite b) = numberValue (a + b)"
| "numAdd NaN y = NaN"
| "numAdd x NaN = NaN"
| "numAdd PosInfinity NegInfinity = NaN"
| "numAdd NegInfinity PosInfinity = NaN"
| "numAdd PosInfinity y = PosInfinity"
| "numAdd NegInfinity y = NegInfinity"
| "numAdd x PosInfinity = PosInfinity"
| "numAdd x NegInfinity = NegInfinity"

text \<open>Division by a length, which is a non-negative integer.\<close>

fun numDivNat :: "number \<Rightarrow> nat \<Rightarrow> number" where
  "numDivNat (Finite a) n =
     (if n = 0 then (if a = 0 then NaN else if 0 < a then PosInfinity else NegInfinity)
      else numberValue (a / of_nat n))"
| "numDivNat x n = x"

text \<open>
  \<^verbatim>\<open>Math.round\<close>: the nearest integer, a tie going towards positive infinity. For a double
  that integer is a double again.
\<close>

fun mathRound :: "number \<Rightarrow> number" where
  "mathRound (Finite x) = Finite (of_int \<lfloor>x + 1 / 2\<rfloor>)"
| "mathRound x = x"

fun numGe :: "number \<Rightarrow> rat \<Rightarrow> bool" where
  "numGe (Finite x) b = (b \<le> x)"
| "numGe PosInfinity b = True"
| "numGe x b = False"

definition isInteger :: "number \<Rightarrow> bool" where
  "isInteger x = (case x of Finite q \<Rightarrow> q = of_int \<lfloor>q\<rfloor> | _ \<Rightarrow> False)"

definition digitValue :: "char \<Rightarrow> nat" where
  "digitValue ch =
     (let n = (of_char ch :: nat) in
      if 48 \<le> n \<and> n \<le> 57 then n - 48
      else if 97 \<le> n \<and> n \<le> 102 then n - 87
      else if 65 \<le> n \<and> n \<le> 70 then n - 55
      else 99)"

definition radixValue :: "nat \<Rightarrow> string \<Rightarrow> int" where
  "radixValue radix ds = foldl (\<lambda>acc d. acc * int radix + int (digitValue d)) 0 ds"

text \<open>
  \<^verbatim>\<open>parseInt(s)\<close> with no radix: leading white space and one sign are dropped, a prefix
  \<^verbatim>\<open>0x\<close> or \<^verbatim>\<open>0X\<close> selects radix 16, and the longest run of digits of the radix is read;
  with no digit the result is NaN, else the Number value of the integer read.
\<close>

definition parseInt :: "string \<Rightarrow> number" where
  "parseInt s =
     (let s1 = dropWhile isWhiteSpace s;
          neg = (take 1 s1 = ''-'');
          s2 = (if take 1 s1 = ''-'' \<or> take 1 s1 = ''+'' then drop 1 s1 else s1);
          hex = (take 2 s2 = ''0x'' \<or> take 2 s2 = ''0X'');
          radix = (if hex then 16 else 10);
          s3 = (if hex then drop 2 s2 else s2);
          ds = takeWhile (\<lambda>ch. digitValue ch < radix) s3
      in if ds = [] then NaN
         else numberValue (of_int ((if neg then - 1 else 1) * radixValue radix ds)))"

section \<open>JSON values\<close>

text \<open>
  The values a JSON text denotes. An object is the list of its members in the order of the
  text; of two members with the same name the later one counts.
\<close>

datatype json =
    JNull
  | JBool bool
  | JNumber number
  | JString string
  | JArray "json list"
  | JObject "(string \<times> json) list"

text \<open>
  The truth value the program's conditions give a value; \<open>None\<close> is \<^verbatim>\<open>undefined\<close>.
\<close>

fun truthyValue :: "json option \<Rightarrow> bool" where
  "truthyValue None = False"
| "truthyValue (Some JNull) = False"
| "truthyValue (Some (JBool b)) = b"
| "truthyValue (Some (JNumber x)) = (x \<noteq> Finite 0 \<and> x \<noteq> NaN)"
| "truthyValue (Some (JString s)) = (s \<noteq> [])"
| "truthyValue (Some (JArray xs)) = True"
| "truthyValue (Some (JObject members)) = True"

text \<open>
  Reading a member by one of the names \<^verbatim>\<open>youtubeUrl\<close>, \<^verbatim>\<open>topic\<close> and \<^verbatim>\<open>customSubtopics\<close>,
  which only an object can have, and reading \<^verbatim>\<open>length\<close>, which an array and a string have
  and an object can have as a member.
\<close>

definition memberOf :: "json \<Rightarrow> string \<Rightarrow> json option" where
  "memberOf v name = (case v of JObject members \<Rightarrow> map_of (rev members) name | _ \<Rightarrow> None)"

definition lengthProp :: "json \<Rightarrow> json option" where
  "lengthProp v =
     (case v of
        JArray xs \<Rightarrow> Some (JNumber (Finite (of_nat (length xs))))
      | JString s \<Rightarrow> Some (JNumber (Finite (of_nat (length s))))
      | JObject members \<Rightarrow> map_of (rev members) ''length''
      | _ \<Rightarrow> None)"

text \<open>The elements of an array of strings.\<close>

fun stringsOf :: "json list \<Rightarrow> string list option" where
  "stringsOf [] = Some []"
| "stringsOf (JString s # rest) = map_option ((#) s) (stringsOf rest)"
| "stringsOf (v # rest) = None"

section \<open>Regular expressions\<close>

subsection \<open>Abstract syntax\<close>

datatype catom = CChar char | CDigit | CNotDigit | CSpace | CNotSpace | CWord | CNotWord

text \<open>
  The Boolean of a quantifier says whether it is greedy; the Boolean of a character class
  whether it is negated; a group carries its capture number.
\<close>

datatype re =
    Empty
  | Chr char
  | Dot
  | CharSet bool "catom list"
  | Bol
  | Eol
  | Seq re re
  | Alt re re
  | Group nat re
  | Star bool re
  | Plus bool re
  | Opt bool re

subsection \<open>Backtracking matcher\<close>

type_synonym captures = "nat \<Rightarrow> string option"

text \<open>A matcher state: the input still to be read, and the captures so far.\<close>

type_synonym mstate = "string \<times> captures"

fun catomMatches :: "bool \<Rightarrow> catom \<Rightarrow> char \<Rightarrow> bool" where
  "catomMatches ic (CChar a) ch = (canonicalize ic a = canonicalize ic ch)"
| "catomMatches ic CDigit ch = isDigit ch"
| "catomMatches ic CNotDigit ch = (\<not> isDigit ch)"
| "catomMatches ic CSpace ch = isWhiteSpace ch"
| "catomMatches ic CNotSpace ch = (\<not> isWhiteSpace ch)"
| "catomMatches ic CWord ch = isWordChar ch"
| "catomMatches ic CNotWord ch = (\<not> isWordChar ch)"

fun groupsOf :: "re \<Rightarrow> nat list" where
  "groupsOf (Seq a b) = groupsOf a @ groupsOf b"
| "groupsOf (Alt a b) = groupsOf a @ groupsOf b"
| "groupsOf (Group n r) = n # groupsOf r"
| "groupsOf (Star g r) = groupsOf r"
| "groupsOf (Plus g r) = groupsOf r"
| "groupsOf (Opt g r) = groupsOf r"
| "groupsOf r = []"

text \<open>
  \<open>definesGroup n r\<close> is a syntactic reason for capture \<open>n\<close> to be defined after any match
  of \<open>r\<close>: group \<open>n\<close> lies on every path through \<open>r\<close>, under no quantifier, and nothing after it
  clears it.
\<close>

fun definesGroup :: "nat \<Rightarrow> re \<Rightarrow> bool" where
  "definesGroup n (Group m r) = (n = m \<or> definesGroup n r)"
| "definesGroup n (Seq a b) = (definesGroup n b \<or> (definesGroup n a \<and> n \<notin> set (groupsOf b)))"
| "definesGroup n (Alt a b) = (definesGroup n a \<and> definesGroup n b)"
| "definesGroup n r = False"

text \<open>
  \<open>needsOneOf S r\<close> is a syntactic reason for every match of \<open>r\<close> (without the \<^verbatim>\<open>i\<close> flag)
  to read a character of \<open>S\<close>.
\<close>

fun needsOneOf :: "char set \<Rightarrow> re \<Rightarrow> bool" where
  "needsOneOf S (Chr a) = (a \<in> S)"
| "needsOneOf S (Seq a b) = (needsOneOf S a \<or> needsOneOf S b)"
| "needsOneOf S (Alt a b) = (needsOneOf S a \<and> needsOneOf S b)"
| "needsOneOf S (Group n r) = needsOneOf S r"
| "needsOneOf S (Plus g r) = needsOneOf S r"
| "needsOneOf S r = False"

definition clearCaptures :: "nat list \<Rightarrow> captures \<Rightarrow> captures" where
  "clearCaptures ns c = (\<lambda>n. if n \<in> set ns then None else c n)"

definition oneChar :: "(char \<Rightarrow> bool) \<Rightarrow> mstate \<Rightarrow> mstate list" where
  "oneChar p x = (case fst x of [] \<Rightarrow> [] | ch # rest \<Rightarrow> if p ch then [(rest, snd x)] else [])"

fun weight :: "re \<Rightarrow> nat" where
  "weight (Seq a b) = Suc (weight a + weight b)"
| "weight (Alt a b) = Suc (weight a + weight b)"
| "weight (Group n r) = Suc (weight r)"
| "weight (Star g r) = Suc (weight r)"
| "weight (Plus g r) = Suc (Suc (weight r))"
| "weight (Opt g r) = Suc (weight r)"
| "weight r = 0"

text \<open>
  \<open>matches ic len r x\<close> lists, in the order a backtracking matcher tries them, the states in
  which a match of \<open>r\<close> started in state \<open>x\<close> can end; \<open>ic\<close> is the \<^verbatim>\<open>i\<close> flag and \<open>len\<close> the
  length of the whole input, so that \<open>^\<close> can tell the start. The head of the list is what
  the matcher returns. A quantifier clears the captures of the groups under it before each
  iteration and gives up an iteration that consumed nothing.
\<close>

function matches :: "bool \<Rightarrow> nat \<Rightarrow> re \<Rightarrow> mstate \<Rightarrow> mstate list" where
  "matches ic len Empty x = [x]"
| "matches ic len (Chr a) x = oneChar (\<lambda>ch. canonicalize ic ch = canonicalize ic a) x"
| "matches ic len Dot x = oneChar (\<lambda>ch. \<not> isLineTerminator ch) x"
| "matches ic len (CharSet invert as) x =
     oneChar (\<lambda>ch. list_ex (\<lambda>a. catomMatches ic a ch) as \<noteq> invert) x"
| "matches ic len Bol x = (if length (fst x) = len then [x] else [])"
| "matches ic len Eol x = (if fst x = [] then [x] else [])"
| "matches ic len (Seq a b) x = concat (map (matches ic len b) (matches ic len a x))"
| "matches ic len (Alt a b) x = matches ic len a x @ matches ic len b x"
| "matches ic len (Group n r) x =
     map (\<lambda>y. (fst y, (snd y)(n \<mapsto> take (length (fst x) - length (fst y)) (fst x))))
         (matches ic len r x)"
| "matches ic len (Star greedy r) x =
     (let more = concat (map (\<lambda>y. if length (fst y) < length (fst x)
                                     then matches ic len (Star greedy r) y else [])
                             (matches ic len r (fst x, clearCaptures (groupsOf r) (snd x))))
      in if greedy then more @ [x] else x # more)"
| "matches ic len (Plus greedy r) x =
     concat (map (matches ic len (Star greedy r))
                 (matches ic len r (fst x, clearCaptures (groupsOf r) (snd x))))"
| "matches ic len (Opt greedy r) x =
     (let more = filter (\<lambda>y. length (fst y) < length (fst x))
                        (matches ic len r (fst x, clearCaptures (groupsOf r) (snd x)))
      in if greedy then more @ [x] else x # more)"
  by pat_completeness auto
termination
  by (relation "measures [\<lambda>(ic, len, r, x). weight r, \<lambda>(ic, len, r, x). length (fst x)]") auto

declare matches.simps [simp del]

fun firstSome :: "('a \<Rightarrow> 'b option) \<Rightarrow> 'a list \<Rightarrow> 'b option" where
  "firstSome f [] = None"
| "firstSome f (x # xs) = (case f x of Some y \<Rightarrow> Some y | None \<Rightarrow> firstSome f xs)"

definition firstMatch :: "bool \<Rightarrow> nat \<Rightarrow> re \<Rightarrow> mstate \<Rightarrow> mstate option" where
  "firstMatch ic len r x = (case matches ic len r x of [] \<Rightarrow> None | y # _ \<Rightarrow> Some y)"

text \<open>The result array of a match: where it starts, element 0, and the numbered captures.\<close>

record matchResult =
  index :: nat
  matched :: string
  groups :: captures

definition matchAt :: "bool \<Rightarrow> re \<Rightarrow> string \<Rightarrow> nat \<Rightarrow> matchResult option" where
  "matchAt ic r input i =
     (case firstMatch ic (length input) r (drop i input, Map.empty) of
        None \<Rightarrow> None
      | Some y \<Rightarrow> Some \<lparr> index = i,
                         matched = take (length input - i - length (fst y)) (drop i input),
                         groups = snd y \<rparr>)"

text \<open>
  \<^verbatim>\<open>input.match(regex)\<close> for a regular expression without the \<^verbatim>\<open>g\<close> flag: the match at the
  leftmost start index that has one, or \<open>None\<close> for \<^verbatim>\<open>null\<close>.
\<close>

definition regExpExec :: "bool \<Rightarrow> re \<Rightarrow> string \<Rightarrow> matchResult option" where
  "regExpExec ic r input = firstSome (matchAt ic r input) [0 ..< Suc (length input)]"

subsection \<open>Pattern syntax\<close>

text \<open>
  The pattern text is read as the host does for this part of its syntax: literal characters,
  \<^verbatim>\<open>.\<close>, \<^verbatim>\<open>^\<close>, \<^verbatim>\<open>$\<close>, \<^verbatim>\<open>|\<close>, capturing groups, the quantifiers \<^verbatim>\<open>*\<close>, \<^verbatim>\<open>+\<close>, \<^verbatim>\<open>?\<close> and their
  lazy forms, the escapes \<^verbatim>\<open>\d \D \s \S \w \W\<close>, an escaped syntax character, and character
  classes made of those without ranges. \<open>Invalid\<close> is a pattern the host rejects with a
  SyntaxError; \<open>Unsupported\<close> is a pattern using syntax not modelled here (braces, groups
  opening with \<^verbatim>\<open>(?\<close>, class ranges, other escapes).
\<close>

datatype quantifier = QStar | QPlus | QOpt

datatype token = TAtom re | TAssert re | TQuant quantifier bool | TBar | TOpen | TClose

datatype 'a compiled = Compiled 'a | Invalid | Unsupported

datatype lexmode = Normal | Escaped | ClassStart | InClass bool "catom list"
  | ClassEscaped bool "catom list"

abbreviation bslash :: char where "bslash \<equiv> CHR 0x5C"

abbreviation esc :: "string \<Rightarrow> string" where "esc s \<equiv> bslash # s"

definition syntaxChars :: string where
  "syntaxChars = ''^$.*+?()[]{}|/'' @ [bslash]"

definition classEscape :: "char \<Rightarrow> catom option" where
  "classEscape c =
     (if c = CHR ''d'' then Some CDigit else if c = CHR ''D'' then Some CNotDigit
      else if c = CHR ''s'' then Some CSpace else if c = CHR ''S'' then Some CNotSpace
      else if c = CHR ''w'' then Some CWord else if c = CHR ''W'' then Some CNotWord
      else if c \<in> set syntaxChars then Some (CChar c)
      else None)"

definition atomOf :: "catom \<Rightarrow> re" where
  "atomOf a = (case a of CChar c \<Rightarrow> Chr c | _ \<Rightarrow> CharSet False [a])"

type_synonym lexstate = "(lexmode \<times> token list) compiled"

definition classStep :: "bool \<Rightarrow> catom list \<Rightarrow> token list \<Rightarrow> char \<Rightarrow> lexstate" where
  "classStep invert as acc c =
     (if c = CHR '']'' then Compiled (Normal, TAtom (CharSet invert (rev as)) # acc)
      else if c = bslash then Compiled (ClassEscaped invert as, acc)
      else if c = CHR ''-'' then Unsupported
      else Compiled (InClass invert (CChar c # as), acc))"

text \<open>One character of the pattern; the tokens read so far are kept newest first.\<close>

fun lexChar :: "lexmode \<Rightarrow> token list \<Rightarrow> char \<Rightarrow> lexstate" where
  "lexChar Normal acc c =
     (if c = bslash then Compiled (Escaped, acc)
      else if c = CHR ''['' then Compiled (ClassStart, acc)
      else if c = CHR ''.'' then Compiled (Normal, TAtom Dot # acc)
      else if c = CHR ''*'' then Compiled (Normal, TQuant QStar True # acc)
      else if c = CHR ''+'' then Compiled (Normal, TQuant QPlus True # acc)
      else if c = CHR ''?'' then
        (case acc of
           TQuant q True # acc' \<Rightarrow> Compiled (Normal, TQuant q False # acc')
         | TOpen # acc' \<Rightarrow> Unsupported
         | _ \<Rightarrow> Compiled (Normal, TQuant QOpt True # acc))
      else if c = CHR ''|'' then Compiled (Normal, TBar # acc)
      else if c = CHR ''('' then Compiled (Normal, TOpen # acc)
      else if c = CHR '')'' then Compiled (Normal, TClose # acc)
      else if c = CHR ''^'' then Compiled (Normal, TAssert Bol # acc)
      else if c = CHR ''$'' then Compiled (Normal, TAssert Eol # acc)
      else if c = CHR ''{'' \<or> c = CHR ''}'' then Unsupported
      else Compiled (Normal, TAtom (Chr c) # acc))"
| "lexChar Escaped acc c =
     (case classEscape c of
        Some a \<Rightarrow> Compiled (Normal, TAtom (atomOf a) # acc)
      | None \<Rightarrow> Unsupported)"
| "lexChar ClassStart acc c =
     (if c = CHR ''^'' then Compiled (InClass True [], acc) else classStep False [] acc c)"
| "lexChar (InClass invert as) acc c = classStep invert as acc c"
| "lexChar (ClassEscaped invert as) acc c =
     (if c = CHR ''-'' then Compiled (InClass invert (CChar c # as), acc)
      else case classEscape c of
        Some a \<Rightarrow> Compiled (InClass invert (a # as), acc)
      | None \<Rightarrow> Unsupported)"

text \<open>A pattern that ends inside an escape or a character class is rejected.\<close>

fun lexer :: "lexstate \<Rightarrow> string \<Rightarrow> token list compiled" where
  "lexer (Compiled (Normal, acc)) [] = Compiled (rev acc)"
| "lexer (Compiled (mode, acc)) [] = Invalid"
| "lexer (Compiled (mode, acc)) (c # cs) = lexer (lexChar mode acc c) cs"
| "lexer Invalid cs = Invalid"
| "lexer Unsupported cs = Unsupported"

fun seqOf :: "re list \<Rightarrow> re" where
  "seqOf [] = Empty"
| "seqOf [r] = r"
| "seqOf (r # rs) = Seq r (seqOf rs)"

fun altOf :: "re list \<Rightarrow> re" where
  "altOf [] = Empty"
| "altOf [r] = r"
| "altOf (r # rs) = Alt r (altOf rs)"

text \<open>
  The parser keeps, for the group being read, the alternatives finished so far and the terms of
  the current one (both newest first), and whether the last term may take a quantifier.
\<close>

record frame =
  alternatives :: "re list"
  terms :: "re list"
  quantifiable :: bool

definition emptyFrame :: frame where
  "emptyFrame = \<lparr> alternatives = [], terms = [], quantifiable = False \<rparr>"

definition disjunctionOf :: "frame \<Rightarrow> re" where
  "disjunctionOf f = altOf (rev (seqOf (rev (terms f)) # alternatives f))"

definition quantify :: "quantifier \<Rightarrow> bool \<Rightarrow> re \<Rightarrow> re" where
  "quantify q greedy r =
     (case q of QStar \<Rightarrow> Star greedy r | QPlus \<Rightarrow> Plus greedy r | QOpt \<Rightarrow> Opt greedy r)"

record pstate =
  current :: frame
  enclosing :: "(frame \<times> nat) list"
  nextGroup :: nat

text \<open>
  A quantifier with nothing to repeat, a closing parenthesis with no group open and a group
  left open at the end are the host's SyntaxErrors.
\<close>

fun parseToken :: "pstate \<Rightarrow> token \<Rightarrow> pstate compiled" where
  "parseToken p (TAtom a) =
     Compiled (p\<lparr> current := (current p)\<lparr> terms := a # terms (current p),
                                           quantifiable := True \<rparr> \<rparr>)"
| "parseToken p (TAssert a) =
     Compiled (p\<lparr> current := (current p)\<lparr> terms := a # terms (current p),
                                           quantifiable := False \<rparr> \<rparr>)"
| "parseToken p (TQuant q greedy) =
     (case terms (current p) of
        [] \<Rightarrow> Invalid
      | t # ts \<Rightarrow>
          if quantifiable (current p)
          then Compiled (p\<lparr> current := (current p)\<lparr> terms := quantify q greedy t # ts,
                                                    quantifiable := False \<rparr> \<rparr>)
          else Invalid)"
| "parseToken p TBar =
     Compiled (p\<lparr> current :=
        \<lparr> alternatives = seqOf (rev (terms (current p))) # alternatives (current p),
          terms = [], quantifiable = False \<rparr> \<rparr>)"
| "parseToken p TOpen =
     Compiled \<lparr> current = emptyFrame,
                enclosing = (current p, nextGroup p) # enclosing p,
                nextGroup = Suc (nextGroup p) \<rparr>"
| "parseToken p TClose =
     (case enclosing p of
        [] \<Rightarrow> Invalid
      | (outer, n) # rest \<Rightarrow>
          Compiled (p\<lparr> current := outer\<lparr> terms := Group n (disjunctionOf (current p)) # terms outer,
                                         quantifiable := True \<rparr>,
                       enclosing := rest \<rparr>))"

fun parser :: "pstate compiled \<Rightarrow> token list \<Rightarrow> re compiled" where
  "parser (Compiled p) [] =
     (if enclosing p = [] then Compiled (disjunctionOf (current p)) else Invalid)"
| "parser (Compiled p) (t # ts) = parser (parseToken p t) ts"
| "parser Invalid ts = Invalid"
| "parser Unsupported ts = Unsupported"

definition compilePattern :: "string \<Rightarrow> re compiled" where
  "compilePattern pattern =
     (case lexer (Compiled (Normal, [])) pattern of
        Compiled toks \<Rightarrow>
          parser (Compiled \<lparr> current = emptyFrame, enclosing = [], nextGroup = 1 \<rparr>) toks
      | Invalid \<Rightarrow> Invalid
      | Unsupported \<Rightarrow> Unsupported)"

section \<open>The server\<close>

datatype exn = Error string | TypeError string | SyntaxError string

fun exnMessage :: "exn \<Rightarrow> string" where
  "exnMessage (Error m) = m"
| "exnMessage (TypeError m) = m"
| "exnMessage (SyntaxError m) = m"

subsection \<open>extractVideoId\<close>

text \<open>
  The pattern of the regular expression literal in \<^verbatim>\<open>extractVideoId\<close>, between its slashes
  (\<open>esc s\<close> puts a backslash before \<open>s\<close>), and the expression it denotes, written in
  four parts; lemma \<open>videoIdPattern_compiles\<close> below shows that \<open>compilePattern\<close> reads the
  pattern as this expression.
\<close>

definition videoIdPattern :: string where
  "videoIdPattern =
     ''^.*((youtu.be'' @ esc ''/)|(v'' @ esc ''/)|('' @ esc ''/u'' @ esc ''/'' @ esc ''w''
       @ esc ''/)|(embed'' @ esc ''/)|(watch'' @ esc ''?))'' @ esc ''??v?=?([^#&?]*).*''"

definition lit :: "string \<Rightarrow> re" where
  "lit s = seqOf (map Chr s)"

definition videoIdMarker :: re where
  "videoIdMarker =
     Group 1
       (Alt (Group 2 (seqOf (map Chr ''youtu'' @ [Dot] @ map Chr ''be/'')))
       (Alt (Group 3 (lit ''v/''))
       (Alt (Group 4 (seqOf (map Chr ''/u/'' @ [CharSet False [CWord], Chr CHR ''/''])))
       (Alt (Group 5 (lit ''embed/''))
            (Group 6 (lit ''watch?''))))))"

definition videoIdCapture :: re where
  "videoIdCapture =
     seqOf [Group 7 (Star True (CharSet True [CChar CHR ''#'', CChar CHR ''&'', CChar CHR ''?''])),
            Star True Dot]"

definition videoIdRest :: re where
  "videoIdRest =
     seqOf [Opt True (Chr CHR ''?''), Opt True (Chr CHR ''v''), Opt True (Chr CHR ''=''),
            videoIdCapture]"

definition videoIdTail :: re where
  "videoIdTail = seqOf [videoIdMarker, videoIdRest]"

definition videoIdRegExp :: re where
  "videoIdRegExp = seqOf [Bol, Star True Dot, videoIdTail]"

text \<open>The characters of a video identifier: letters, digits, underscore and hyphen.\<close>

definition idChar :: "char \<Rightarrow> bool" where
  "idChar ch = (isWordChar ch \<or> ch = CHR ''-'')"

text \<open>
  \<^verbatim>\<open>match[7].length\<close> throws a TypeError should capture 7 be undefined; \<open>Inr None\<close> is the
  returned \<^verbatim>\<open>null\<close>.
\<close>

definition extractVideoId :: "string \<Rightarrow> exn + string option" where
  "extractVideoId url =
     (case regExpExec False videoIdRegExp url of
        None \<Rightarrow> Inr None
      | Some m \<Rightarrow>
          (case groups m 7 of
             None \<Rightarrow> Inl (TypeError ''Cannot read properties of undefined (reading 'length')'')
           | Some t \<Rightarrow> if length t = 11 then Inr (Some t) else Inr None))"

subsection \<open>External collaborators\<close>

record message =
  role :: string
  content :: string

record snippet =
  title :: string
  description :: string
  channelTitle :: string
  publishedAt :: string
  thumbnail :: string

text \<open>
  What the outside world answers. \<open>groqPost messages max_tokens\<close> is the text at
  \<^verbatim>\<open>response.data.choices[0].message.content\<close> of the completion request, or the exception
  raised on the way to it; \<open>youtubeVideos videoId\<close> is the list of items of the metadata
  request; \<open>transcriptService videoId\<close> the \<^verbatim>\<open>transcript\<close> field of the transcript request, if
  it has one. \<open>hostRegExp pattern\<close> stands for the host's regular expressions on patterns that
  \<open>compilePattern\<close> does not read: \<open>None\<close> when the constructor throws, else the function from
  a text to \<^verbatim>\<open>null\<close> (\<open>None\<close>) or to capture 1 of the match (\<open>Some None\<close> when undefined).
  \<open>hostCoverage transcript labels\<close> stands for \<^verbatim>\<open>analyzeCoverage\<close> on an array of labels
  that are not all strings, where the program turns a label into a text by the host's
  conversion: the report, and the messages of the completion request if one is sent.
\<close>

record env =
  groqPost :: "message list \<Rightarrow> nat \<Rightarrow> exn + string"
  youtubeVideos :: "string \<Rightarrow> exn + snippet list"
  transcriptService :: "string \<Rightarrow> exn + string option"
  hostRegExp :: "string \<Rightarrow> (string \<Rightarrow> string option option) option"
  hostCoverage :: "string \<Rightarrow> json list \<Rightarrow> json \<times> message list option"

definition getYouTubeVideoData :: "env \<Rightarrow> string \<Rightarrow> exn + snippet" where
  "getYouTubeVideoData e videoId =
     (case youtubeVideos e videoId of
        Inl err \<Rightarrow> Inl err
      | Inr items \<Rightarrow>
          (case items of
             [] \<Rightarrow> Inl (Error ''Video not found'')
           | item # _ \<Rightarrow> Inr item))"

definition transcriptFallback :: "env \<Rightarrow> string \<Rightarrow> exn + string" where
  "transcriptFallback e videoId =
     (case getYouTubeVideoData e videoId of
        Inl err \<Rightarrow> Inl err
      | Inr videoData \<Rightarrow>
          Inr (if description videoData \<noteq> [] then description videoData
               else ''No transcript available.''))"

definition getTranscript :: "env \<Rightarrow> string \<Rightarrow> exn + string" where
  "getTranscript e videoId =
     (case transcriptService e videoId of
        Inr (Some t) \<Rightarrow> if t \<noteq> [] then Inr t else transcriptFallback e videoId
      | _ \<Rightarrow> transcriptFallback e videoId)"

definition callGroq :: "env \<Rightarrow> message list \<Rightarrow> nat \<Rightarrow> exn + string" where
  "callGroq e messages max_tokens =
     (case groqPost e messages max_tokens of
        Inl err \<Rightarrow> Inl err
      | Inr text \<Rightarrow> Inr (trim text))"

subsection \<open>analyzeCoverage\<close>

record subtopicResult =
  subtopic :: string
  coverageScore :: number
  covered :: bool
  evidence :: string

record coverageReport =
  overallScore :: number
  subtopicAnalysis :: "subtopicResult list"
  summary :: string

definition truncateTranscript :: "string \<Rightarrow> string" where
  "truncateTranscript transcript =
     (if length transcript > 4000 then take 4000 transcript @ ''... [truncated]''
      else transcript)"

definition promptHead :: string where
  "promptHead =
     ''You are an educational analyst. \<newline>'' @
     ''For each subtopic listed below, provide a coverage percentage (0-100) and a short explanation based on the transcript. \<newline>'' @
     ''Format each subtopic like this:\<newline>'' @
     ''Subtopic: <name>\<newline>'' @
     ''Score: <0-100>\<newline>'' @
     ''Evidence: <brief explanation>\<newline>'' @
     ''\<newline>'' @
     ''Transcript: '' @ [CHR 0x22]"

definition buildPrompt :: "string \<Rightarrow> string list \<Rightarrow> string" where
  "buildPrompt truncatedTranscript subtopics =
     promptHead @ truncatedTranscript @ [CHR 0x22] @ ''\<newline>\<newline>Subtopics: ''
       @ join '', '' subtopics"

definition buildMessages :: "string \<Rightarrow> string list \<Rightarrow> message list" where
  "buildMessages transcript subtopics =
     [\<lparr> role = ''system'', content = ''You are an educational content analyst.'' \<rparr>,
      \<lparr> role = ''user'', content = buildPrompt (truncateTranscript transcript) subtopics \<rparr>]"

text \<open>The pattern text handed to the RegExp constructor for one subtopic.\<close>

definition scorePattern :: "string \<Rightarrow> string" where
  "scorePattern sub = sub @ ''['' @ esc ''s'' @ esc ''S]*?Score:'' @ esc ''s*('' @ esc ''d+)''"

text \<open>
  \<^verbatim>\<open>new RegExp(pattern, 'i')\<close> followed by \<^verbatim>\<open>text.match(regex)\<close>, as far as the program looks at
  the result: whether there is a match, and its capture 1.
\<close>

definition newRegExp :: "env \<Rightarrow> string \<Rightarrow> exn + (string \<Rightarrow> string option option)" where
  "newRegExp e pattern =
     (case compilePattern pattern of
        Compiled r \<Rightarrow> Inr (\<lambda>text. map_option (\<lambda>m. groups m 1) (regExpExec True r text))
      | Invalid \<Rightarrow> Inl (SyntaxError ''Invalid regular expression'')
      | Unsupported \<Rightarrow>
          (case hostRegExp e pattern of
             None \<Rightarrow> Inl (SyntaxError ''Invalid regular expression'')
           | Some f \<Rightarrow> Inr f))"

text \<open>An undefined capture reaches \<^verbatim>\<open>parseInt\<close> as the text \<^verbatim>\<open>undefined\<close>.\<close>

definition captureText :: "string option \<Rightarrow> string" where
  "captureText c = (case c of None \<Rightarrow> ''undefined'' | Some t \<Rightarrow> t)"

definition parseSubtopic :: "env \<Rightarrow> string \<Rightarrow> string \<Rightarrow> exn + subtopicResult" where
  "parseSubtopic e responseText sub =
     (case newRegExp e (scorePattern sub) of
        Inl err \<Rightarrow> Inl err
      | Inr regex \<Rightarrow>
          (case regex responseText of
             Some c \<Rightarrow>
               Inr \<lparr> subtopic = sub,
                     coverageScore = parseInt (captureText c),
                     covered = numGe (parseInt (captureText c)) 50,
                     evidence = ''Evidence found in transcript.'' \<rparr>
           | None \<Rightarrow>
               Inr \<lparr> subtopic = sub,
                     coverageScore = Finite 0,
                     covered = False,
                     evidence = ''No evidence found.'' \<rparr>))"

text \<open>\<^verbatim>\<open>subtopics.map(...)\<close> with a callback that may throw: the first exception ends it.\<close>

fun mapThrowing :: "('a \<Rightarrow> exn + 'b) \<Rightarrow> 'a list \<Rightarrow> exn + 'b list" where
  "mapThrowing f [] = Inr []"
| "mapThrowing f (x # xs) =
     (case f x of
        Inl err \<Rightarrow> Inl err
      | Inr y \<Rightarrow> (case mapThrowing f xs of Inl err \<Rightarrow> Inl err | Inr ys \<Rightarrow> Inr (y # ys)))"

definition overallOf :: "subtopicResult list \<Rightarrow> number" where
  "overallOf analysis =
     mathRound (numDivNat (foldl (\<lambda>sum s. numAdd sum (coverageScore s)) (Finite 0) analysis)
                          (length analysis))"

definition successReport :: "string list \<Rightarrow> subtopicResult list \<Rightarrow> coverageReport" where
  "successReport subtopics analysis =
     \<lparr> overallScore = overallOf analysis,
       subtopicAnalysis = analysis,
       summary = ''Overall coverage based on '' @ showNat (length subtopics) @ '' subtopics.'' \<rparr>"

definition failedResult :: "string \<Rightarrow> subtopicResult" where
  "failedResult sub =
     \<lparr> subtopic = sub, coverageScore = Finite 0, covered = False,
       evidence = ''Failed to analyze coverage.'' \<rparr>"

definition failureReport :: "string list \<Rightarrow> coverageReport" where
  "failureReport subtopics =
     \<lparr> overallScore = Finite 0,
       subtopicAnalysis = map failedResult subtopics,
       summary = ''Failed to generate coverage analysis.'' \<rparr>"

text \<open>
  The body of the \<^verbatim>\<open>try\<close> block: \<open>Inl\<close> is an exception thrown inside it. The function
  takes the topic as its third argument and does not use it. What it writes to the console is
  not modelled.
\<close>

definition analyzeCoverageTry ::
  "env \<Rightarrow> string \<Rightarrow> string list \<Rightarrow> string \<Rightarrow> exn + coverageReport" where
  "analyzeCoverageTry e transcript subtopics topic =
     (case callGroq e (buildMessages transcript subtopics) 2000 of
        Inl err \<Rightarrow> Inl err
      | Inr responseText \<Rightarrow>
          (case mapThrowing (parseSubtopic e responseText) subtopics of
             Inl err \<Rightarrow> Inl err
           | Inr analysis \<Rightarrow> Inr (successReport subtopics analysis)))"

definition analyzeCoverage ::
  "env \<Rightarrow> string \<Rightarrow> string list \<Rightarrow> string \<Rightarrow> coverageReport" where
  "analyzeCoverage e transcript subtopics topic =
     (case analyzeCoverageTry e transcript subtopics topic of
        Inr report \<Rightarrow> report
      | Inl err \<Rightarrow> failureReport subtopics)"

subsection \<open>POST /api/analyze\<close>

record videoInfo =
  videoId :: string
  videoTitle :: string
  videoChannelTitle :: string
  videoPublishedAt :: string
  videoThumbnail :: string
  videoUrl :: string

text \<open>
  The body of a response: an error with its optional hint, or the success body, whose echo of
  the subtopics and whose report are typed when every subtopic is a string and are JSON values
  otherwise.
\<close>

datatype responseBody =
    ErrorBody string "string option"
  | SuccessBody videoInfo string "string list" coverageReport
  | SuccessBodyOfValues videoInfo string "json list" json

record response =
  statusCode :: nat
  body :: responseBody

text \<open>The requests sent to the outside world while a request is handled, in order.\<close>

datatype upstreamCall =
    VideoRequest string
  | TranscriptRequest string
  | CompletionRequest "message list" nat

definition truthy :: "string option \<Rightarrow> bool" where
  "truthy v = (case v of None \<Rightarrow> False | Some s \<Rightarrow> s \<noteq> [])"

definition serverError :: "exn \<Rightarrow> response" where
  "serverError err =
     \<lparr> statusCode = 500,
       body = ErrorBody (exnMessage err) (Some ''Please check API keys and try again.'') \<rparr>"

definition transcriptCalls :: "env \<Rightarrow> string \<Rightarrow> upstreamCall list" where
  "transcriptCalls e v =
     (case transcriptService e v of
        Inr (Some t) \<Rightarrow>
          if t \<noteq> [] then [TranscriptRequest v] else [TranscriptRequest v, VideoRequest v]
      | _ \<Rightarrow> [TranscriptRequest v, VideoRequest v])"

text \<open>
  \<^verbatim>\<open>req.body\<close> is a JSON value, or \<^verbatim>\<open>undefined\<close> (\<open>None\<close>) when the middleware has parsed
  no body. Destructuring it throws when it is \<^verbatim>\<open>undefined\<close> or \<^verbatim>\<open>null\<close> and reads the
  three members otherwise.
\<close>

definition destructureBody :: "json option \<Rightarrow> exn + json option \<times> json option \<times> json option" where
  "destructureBody reqBody =
     (case reqBody of
        None \<Rightarrow>
          Inl (TypeError ''Cannot destructure property 'youtubeUrl' of 'req.body' as it is undefined.'')
      | Some JNull \<Rightarrow>
          Inl (TypeError ''Cannot destructure property 'youtubeUrl' of 'req.body' as it is null.'')
      | Some v \<Rightarrow> Inr (memberOf v ''youtubeUrl'', memberOf v ''topic'', memberOf v ''customSubtopics''))"

text \<open>\<^verbatim>\<open>customSubtopics.length === 0\<close>, which is evaluated for a truthy value only.\<close>

definition lengthIsZero :: "json option \<Rightarrow> bool" where
  "lengthIsZero v =
     (case v of None \<Rightarrow> False | Some w \<Rightarrow> lengthProp w = Some (JNumber (Finite 0)))"

text \<open>
  The call \<^verbatim>\<open>extractVideoId(youtubeUrl)\<close>: of the JSON values only a string has the method
  \<^verbatim>\<open>match\<close>.
\<close>

definition extractVideoIdOf :: "json \<Rightarrow> exn + string option" where
  "extractVideoIdOf v =
     (case v of
        JString url \<Rightarrow> extractVideoId url
      | _ \<Rightarrow> Inl (TypeError ''url.match is not a function''))"

text \<open>
  \<^verbatim>\<open>analyzeCoverage\<close> does not use its third argument, which the embedding types as a text; a
  topic that is not a string is handed over as the empty text.
\<close>

definition topicArgument :: "json \<Rightarrow> string" where
  "topicArgument v = (case v of JString t \<Rightarrow> t | _ \<Rightarrow> [])"

text \<open>
  The call \<^verbatim>\<open>analyzeCoverage(transcript, customSubtopics, topic)\<close> and the response made of
  its result, with the requests the call sends. A value that is not an array has neither
  \<^verbatim>\<open>join\<close> nor \<^verbatim>\<open>map\<close>: the first failure is caught inside \<^verbatim>\<open>analyzeCoverage\<close>, the second
  is thrown by its \<^verbatim>\<open>catch\<close> block and reaches the handler. For an array with an element
  that is not a string the report is the one of \<open>hostCoverage\<close>.
\<close>

definition coverageStep ::
  "env \<Rightarrow> videoInfo \<Rightarrow> string \<Rightarrow> json \<Rightarrow> json \<Rightarrow> response \<times> upstreamCall list" where
  "coverageStep e info transcript customSubtopics topic =
     (let excerpt = take 500 transcript @ (if length transcript > 500 then ''...'' else [])
      in case customSubtopics of
           JArray labels \<Rightarrow>
             (case stringsOf labels of
                Some subs \<Rightarrow>
                  (\<lparr> statusCode = 200,
                     body = SuccessBody info excerpt subs
                              (analyzeCoverage e transcript subs (topicArgument topic)) \<rparr>,
                   [CompletionRequest (buildMessages transcript subs) 2000])
              | None \<Rightarrow>
                  (case hostCoverage e transcript labels of
                     (report, sent) \<Rightarrow>
                       (\<lparr> statusCode = 200,
                          body = SuccessBodyOfValues info excerpt labels report \<rparr>,
                        case sent of
                          None \<Rightarrow> []
                        | Some messages \<Rightarrow> [CompletionRequest messages 2000])))
         | _ \<Rightarrow> (serverError (TypeError ''subtopics.map is not a function''), []))"

definition analyzeHandler :: "env \<Rightarrow> json option \<Rightarrow> response \<times> upstreamCall list" where
  "analyzeHandler e reqBody =
     (case destructureBody reqBody of
        Inl err \<Rightarrow> (serverError err, [])
      | Inr (youtubeUrl, topic, customSubtopics) \<Rightarrow>
          if \<not> truthyValue youtubeUrl \<or> \<not> truthyValue topic \<or> \<not> truthyValue customSubtopics
             \<or> lengthIsZero customSubtopics
          then (\<lparr> statusCode = 400,
                  body = ErrorBody ''YouTube URL, topic, and at least one subtopic are required.'' None \<rparr>,
                [])
          else
            case extractVideoIdOf (the youtubeUrl) of
              Inl err \<Rightarrow> (serverError err, [])
            | Inr None \<Rightarrow>
                (\<lparr> statusCode = 400, body = ErrorBody ''Invalid YouTube URL.'' None \<rparr>, [])
            | Inr (Some v) \<Rightarrow>
                (case getYouTubeVideoData e v of
                   Inl err \<Rightarrow> (serverError err, [VideoRequest v])
                 | Inr videoData \<Rightarrow>
                     (case getTranscript e v of
                        Inl err \<Rightarrow> (serverError err, VideoRequest v # transcriptCalls e v)
                      | Inr transcript \<Rightarrow>
                          (case coverageStep e
                                  \<lparr> videoId = v, videoTitle = title videoData,
                                    videoChannelTitle = channelTitle videoData,
                                    videoPublishedAt = publishedAt videoData,
                                    videoThumbnail = thumbnail videoData,
                                    videoUrl = ''https://www.youtube.com/watch?v='' @ v \<rparr>
                                  transcript (the customSubtopics) (the topic) of
                             (answer, sent) \<Rightarrow>
                               (answer, VideoRequest v # transcriptCalls e v @ sent)))))"

subsection \<open>GET /api/health\<close>

text \<open>
  The two secrets as the program holds them after start-up, in its constants
  \<^verbatim>\<open>GROQ_API_KEY\<close> (read from the variable \<^verbatim>\<open>GORQ_API_KEY\<close> of the environment) and
  \<^verbatim>\<open>YOUTUBE_API_KEY\<close>; \<open>None\<close> is a variable that is not set.
\<close>

record config =
  groqApiKey :: "string option"
  youtubeApiKey :: "string option"

record health =
  status :: string
  message :: string
  hasGroqKey :: bool
  hasYouTubeKey :: bool

definition healthHandler :: "config \<Rightarrow> health" where
  "healthHandler cfg =
     \<lparr> status = ''OK'', message = ''Server running'',
       hasGroqKey = truthy (groqApiKey cfg), hasYouTubeKey = truthy (youtubeApiKey cfg) \<rparr>"

section \<open>Fixtures\<close>

text \<open>
  An outside world in which the completion request has the given outcome, the metadata request
  finds no video, the transcript service has no transcript, and patterns outside the modelled
  syntax are rejected. It is used with labels that are strings, where \<open>hostCoverage\<close>
  plays no part.
\<close>

definition completionEnv :: "exn + string \<Rightarrow> env" where
  "completionEnv outcome =
     \<lparr> groqPost = (\<lambda>messages max_tokens. outcome),
       youtubeVideos = (\<lambda>videoId. Inr []),
       transcriptService = (\<lambda>videoId. Inr None),
       hostRegExp = (\<lambda>pattern. None),
       hostCoverage = (\<lambda>transcript labels. (JNull, None)) \<rparr>"

section \<open>Facts about the matcher\<close>

lemma firstSome_SomeD: "firstSome f xs = Some y \<Longrightarrow> \<exists>x \<in> set xs. f x = Some y"
  by (induction xs) (auto split: option.splits)

lemma firstMatch_SomeD: "firstMatch ic len r x = Some y \<Longrightarrow> y \<in> set (matches ic len r x)"
  by (auto simp: firstMatch_def split: list.splits)

lemma in_matches_Seq:
  "y \<in> set (matches ic len (Seq a b) x) \<longleftrightarrow>
     (\<exists>z \<in> set (matches ic len a x). y \<in> set (matches ic len b z))"
  by (simp add: matches.simps(7))

lemma in_matches_Alt:
  "y \<in> set (matches ic len (Alt a b) x) \<longleftrightarrow>
     y \<in> set (matches ic len a x) \<or> y \<in> set (matches ic len b x)"
  by (simp add: matches.simps(8))

lemma in_matches_Group:
  "y \<in> set (matches ic len (Group n r) x) \<longleftrightarrow>
     (\<exists>z \<in> set (matches ic len r x).
        y = (fst z, (snd z)(n \<mapsto> take (length (fst x) - length (fst z)) (fst x))))"
  by (auto simp add: matches.simps(9))

lemma in_matches_Star:
  "y \<in> set (matches ic len (Star g r) x) \<longleftrightarrow>
     y = x \<or> (\<exists>z \<in> set (matches ic len r (fst x, clearCaptures (groupsOf r) (snd x))).
                length (fst z) < length (fst x) \<and> y \<in> set (matches ic len (Star g r) z))"
  by (subst matches.simps(10)) (auto simp: Let_def split: if_splits)

lemma in_matches_Plus:
  "y \<in> set (matches ic len (Plus g r) x) \<longleftrightarrow>
     (\<exists>z \<in> set (matches ic len r (fst x, clearCaptures (groupsOf r) (snd x))).
        y \<in> set (matches ic len (Star g r) z))"
  by (simp add: matches.simps(11))

lemma in_matches_Opt:
  "y \<in> set (matches ic len (Opt g r) x) \<longleftrightarrow>
     y = x \<or> (y \<in> set (matches ic len r (fst x, clearCaptures (groupsOf r) (snd x)))
               \<and> length (fst y) < length (fst x))"
  by (auto simp: matches.simps(12) Let_def)

text \<open>A match of \<open>r\<close> leaves alone every capture whose group is not part of \<open>r\<close>.\<close>

lemma matches_frame:
  "y \<in> set (matches ic len r x) \<Longrightarrow> n \<notin> set (groupsOf r) \<Longrightarrow> snd y n = snd x n"
proof (induction ic len r x arbitrary: y rule: matches.induct)
  case (7 ic len a b x)
  from "7.prems"(1) obtain z where z: "z \<in> set (matches ic len a x)" "y \<in> set (matches ic len b z)"
    by (auto simp: in_matches_Seq)
  from "7.prems"(2) have na: "n \<notin> set (groupsOf a)" and nb: "n \<notin> set (groupsOf b)" by auto
  have "snd z n = snd x n" using "7.IH"(1)[OF z(1) na] .
  moreover have "snd y n = snd z n" using "7.IH"(2)[OF z(1) z(2) nb] .
  ultimately show ?case by simp
next
  case (8 ic len a b x)
  from "8.prems"(2) have na: "n \<notin> set (groupsOf a)" and nb: "n \<notin> set (groupsOf b)" by auto
  from "8.prems"(1) consider "y \<in> set (matches ic len a x)" | "y \<in> set (matches ic len b x)"
    by (auto simp: in_matches_Alt)
  then show ?case using "8.IH"(1)[OF _ na] "8.IH"(2)[OF _ nb] by cases blast+
next
  case (9 ic len n' r x)
  from "9.prems"(2) have ne: "n \<noteq> n'" and nr: "n \<notin> set (groupsOf r)" by auto
  from "9.prems"(1) obtain z where z: "z \<in> set (matches ic len r x)"
      and y: "y = (fst z, (snd z)(n' \<mapsto> take (length (fst x) - length (fst z)) (fst x)))"
    by (auto simp: in_matches_Group)
  have "snd z n = snd x n" using "9.IH"[OF z nr] .
  then show ?case using y ne by simp
next
  case (10 ic len greedy r x)
  let ?x0 = "(fst x, clearCaptures (groupsOf r) (snd x))"
  from "10.prems" have n: "n \<notin> set (groupsOf r)" by simp
  from "10.prems"(1) consider "y = x"
    | y' where "y' \<in> set (matches ic len r ?x0)" "length (fst y') < length (fst x)"
        "y \<in> set (matches ic len (Star greedy r) y')"
    using in_matches_Star[of y ic len greedy r x] by blast
  then show ?case
  proof cases
    case 1
    then show ?thesis by simp
  next
    case 2
    have "snd y' n = snd ?x0 n" using "10.IH"(1)[OF 2(1) n] .
    moreover have "snd y n = snd y' n" using "10.IH"(2)[OF 2(1) 2(2) 2(3)] "10.prems"(2) by simp
    ultimately show ?thesis using n by (simp add: clearCaptures_def)
  qed
next
  case (11 ic len greedy r x)
  let ?x0 = "(fst x, clearCaptures (groupsOf r) (snd x))"
  from "11.prems" have n: "n \<notin> set (groupsOf r)" by simp
  from "11.prems"(1) obtain y' where y': "y' \<in> set (matches ic len r ?x0)"
      "y \<in> set (matches ic len (Star greedy r) y')"
    using in_matches_Plus[of y ic len greedy r x] by blast
  have "snd y' n = snd ?x0 n" using "11.IH"(1)[OF y'(1) n] .
  moreover have "snd y n = snd y' n" using "11.IH"(2)[OF y'(1) y'(2)] n by simp
  ultimately show ?case using n by (simp add: clearCaptures_def)
next
  case (12 ic len greedy r x)
  let ?x0 = "(fst x, clearCaptures (groupsOf r) (snd x))"
  from "12.prems" have n: "n \<notin> set (groupsOf r)" by simp
  from "12.prems"(1) consider "y = x" | "y \<in> set (matches ic len r ?x0)"
    using in_matches_Opt[of y ic len greedy r x] by blast
  then show ?case
  proof cases
    case 1
    then show ?thesis by simp
  next
    case 2
    then show ?thesis using "12.IH"[OF 2 n] n by (simp add: clearCaptures_def)
  qed
qed (auto simp: matches.simps oneChar_def split: list.splits if_splits)

lemma matches_defines:
  "definesGroup n r \<Longrightarrow> y \<in> set (matches ic len r x) \<Longrightarrow> snd y n \<noteq> None"
proof (induction r arbitrary: x y)
  case (Seq a b)
  from Seq.prems(2) obtain z where z: "z \<in> set (matches ic len a x)" "y \<in> set (matches ic len b z)"
    by (auto simp: in_matches_Seq)
  show ?case
  proof (cases "definesGroup n b")
    case True
    then show ?thesis using Seq.IH(2) z(2) by blast
  next
    case False
    with Seq.prems(1) have a: "definesGroup n a" and nb: "n \<notin> set (groupsOf b)" by auto
    have "snd z n \<noteq> None" using Seq.IH(1)[OF a z(1)] .
    moreover have "snd y n = snd z n" using matches_frame[OF z(2) nb] .
    ultimately show ?thesis by simp
  qed
next
  case (Alt a b)
  from Alt.prems have a: "definesGroup n a" and b: "definesGroup n b" by auto
  from Alt.prems(2) consider "y \<in> set (matches ic len a x)" | "y \<in> set (matches ic len b x)"
    by (auto simp: in_matches_Alt)
  then show ?case using Alt.IH(1)[OF a] Alt.IH(2)[OF b] by cases blast+
next
  case (Group m r)
  from Group.prems(2) obtain z where z: "z \<in> set (matches ic len r x)"
      and y: "y = (fst z, (snd z)(m \<mapsto> take (length (fst x) - length (fst z)) (fst x)))"
    by (auto simp: in_matches_Group)
  show ?case
  proof (cases "n = m")
    case True
    then show ?thesis using y by simp
  next
    case False
    with Group.prems(1) have "definesGroup n r" by simp
    then have "snd z n \<noteq> None" using Group.IH z by blast
    then show ?thesis using y False by simp
  qed
qed simp_all

lemma regExpExec_defines:
  assumes "definesGroup n r" and "regExpExec ic r input = Some m"
  shows "groups m n \<noteq> None"
proof -
  from assms(2) obtain i where "matchAt ic r input i = Some m"
    unfolding regExpExec_def by (blast dest: firstSome_SomeD)
  then obtain y where y: "firstMatch ic (length input) r (drop i input, Map.empty) = Some y"
      and g: "groups m = snd y"
    by (auto simp: matchAt_def split: option.splits)
  have "snd y n \<noteq> None"
    using matches_defines[OF assms(1) firstMatch_SomeD[OF y]] .
  then show ?thesis using g by simp
qed

subsection \<open>Running the matcher on a given input\<close>

text \<open>
  The first result of a sequence can be found without listing every result: take the results
  of the first part in order and stop at the first one from which the rest matches.
\<close>

lemma firstOfConcat:
  "(case concat (map f xs) of [] \<Rightarrow> None | y # _ \<Rightarrow> Some y)
     = firstSome (\<lambda>x. case f x of [] \<Rightarrow> None | y # _ \<Rightarrow> Some y) xs"
proof (induction xs)
  case Nil
  show ?case by simp
next
  case (Cons a xs)
  show ?case using Cons.IH by (cases "f a") simp_all
qed

lemma firstMatch_Seq:
  "firstMatch ic len (Seq a b) x = firstSome (firstMatch ic len b) (matches ic len a x)"
  unfolding firstMatch_def by (simp add: firstOfConcat matches.simps(7))

lemma firstMatch_atom:
  "firstMatch ic len Empty x = Some x"
  "firstMatch ic len (Star g r) x = (case matches ic len (Star g r) x of [] \<Rightarrow> None | y # _ \<Rightarrow> Some y)"
  "firstMatch ic len (Plus g r) x = (case matches ic len (Plus g r) x of [] \<Rightarrow> None | y # _ \<Rightarrow> Some y)"
  "firstMatch ic len (Opt g r) x = (case matches ic len (Opt g r) x of [] \<Rightarrow> None | y # _ \<Rightarrow> Some y)"
  "firstMatch ic len (Group n r) x = (case matches ic len (Group n r) x of [] \<Rightarrow> None | y # _ \<Rightarrow> Some y)"
  "firstMatch ic len (Chr c) x = (case matches ic len (Chr c) x of [] \<Rightarrow> None | y # _ \<Rightarrow> Some y)"
  "firstMatch ic len Dot x = (case matches ic len Dot x of [] \<Rightarrow> None | y # _ \<Rightarrow> Some y)"
  "firstMatch ic len (CharSet i as) x = (case matches ic len (CharSet i as) x of [] \<Rightarrow> None | y # _ \<Rightarrow> Some y)"
  "firstMatch ic len Bol x = (case matches ic len Bol x of [] \<Rightarrow> None | y # _ \<Rightarrow> Some y)"
  "firstMatch ic len Eol x = (case matches ic len Eol x of [] \<Rightarrow> None | y # _ \<Rightarrow> Some y)"
  "firstMatch ic len (Alt a b) x = (case matches ic len (Alt a b) x of [] \<Rightarrow> None | y # _ \<Rightarrow> Some y)"
  by (simp_all add: firstMatch_def matches.simps(1))

lemma firstSome_upt:
  "firstSome f [i ..< Suc n] =
     (if i \<le> n then (case f i of Some y \<Rightarrow> Some y | None \<Rightarrow> firstSome f [Suc i ..< Suc n])
      else None)"
proof (cases "i \<le> n")
  case True
  then have "[i ..< Suc n] = i # [Suc i ..< Suc n]" by (simp add: upt_conv_Cons del: upt_Suc)
  then show ?thesis using True by (simp del: upt_Suc)
next
  case False
  then show ?thesis by simp
qed

lemmas charClasses = isDigit_def isWordChar_def isLineTerminator_def isWhiteSpace_def
  canonicalize_def digitValue_def Let_def

lemmas runMatcher = firstMatch_Seq firstMatch_atom firstSome_upt regExpExec_def matchAt_def
  matches.simps oneChar_def clearCaptures_def charClasses

lemmas runCompiler = compilePattern_def classStep_def classEscape_def atomOf_def syntaxChars_def
  emptyFrame_def disjunctionOf_def quantify_def

lemma videoIdPattern_compiles: "compilePattern videoIdPattern = Compiled videoIdRegExp"
  by (simp add: videoIdPattern_def videoIdRegExp_def videoIdTail_def videoIdRest_def
      videoIdCapture_def videoIdMarker_def lit_def runCompiler)


subsection \<open>What a match reads\<close>

lemma matches_suffix:
  "y \<in> set (matches ic len r x) \<Longrightarrow> \<exists>w. fst x = w @ fst y"
proof (induction ic len r x arbitrary: y rule: matches.induct)
  case (7 ic len a b x)
  from "7.prems" obtain z where z: "z \<in> set (matches ic len a x)" "y \<in> set (matches ic len b z)"
    by (auto simp: in_matches_Seq)
  from "7.IH"(1)[OF z(1)] obtain u where "fst x = u @ fst z" by blast
  moreover from "7.IH"(2)[OF z(1) z(2)] obtain v where "fst z = v @ fst y" by blast
  ultimately have "fst x = (u @ v) @ fst y" by simp
  then show ?case by blast
next
  case (8 ic len a b x)
  from "8.prems" consider "y \<in> set (matches ic len a x)" | "y \<in> set (matches ic len b x)"
    by (auto simp: in_matches_Alt)
  then show ?case using "8.IH" by cases blast+
next
  case (9 ic len n r x)
  from "9.prems" obtain z where z: "z \<in> set (matches ic len r x)" and y: "fst y = fst z"
    by (auto simp: in_matches_Group)
  from "9.IH"[OF z] y show ?case by simp
next
  case (10 ic len greedy r x)
  let ?x0 = "(fst x, clearCaptures (groupsOf r) (snd x))"
  from "10.prems" consider "y = x"
    | z where "z \<in> set (matches ic len r ?x0)" "length (fst z) < length (fst x)"
        "y \<in> set (matches ic len (Star greedy r) z)"
    using in_matches_Star[of y ic len greedy r x] by blast
  then show ?case
  proof cases
    case 1
    then show ?thesis by simp
  next
    case 2
    from "10.IH"(1)[OF 2(1)] obtain u where "fst x = u @ fst z" by auto
    moreover from "10.IH"(2)[OF 2(1) 2(2) 2(3)] obtain v where "fst z = v @ fst y" by blast
    ultimately have "fst x = (u @ v) @ fst y" by simp
    then show ?thesis by blast
  qed
next
  case (11 ic len greedy r x)
  let ?x0 = "(fst x, clearCaptures (groupsOf r) (snd x))"
  from "11.prems" obtain z where z: "z \<in> set (matches ic len r ?x0)"
      "y \<in> set (matches ic len (Star greedy r) z)"
    using in_matches_Plus[of y ic len greedy r x] by blast
  from "11.IH"(1)[OF z(1)] obtain u where "fst x = u @ fst z" by auto
  moreover from "11.IH"(2)[OF z(1) z(2)] obtain v where "fst z = v @ fst y" by blast
  ultimately have "fst x = (u @ v) @ fst y" by simp
  then show ?case by blast
next
  case (12 ic len greedy r x)
  let ?x0 = "(fst x, clearCaptures (groupsOf r) (snd x))"
  from "12.prems" consider "y = x" | "y \<in> set (matches ic len r ?x0)"
    using in_matches_Opt[of y ic len greedy r x] by blast
  then show ?case
  proof cases
    case 1
    then show ?thesis by simp
  next
    case 2
    from "12.IH"[OF 2] show ?thesis by auto
  qed
qed (auto simp: matches.simps oneChar_def split: list.splits if_splits)

lemma matches_suffix_set:
  "y \<in> set (matches ic len r x) \<Longrightarrow> set (fst y) \<subseteq> set (fst x)"
  using matches_suffix[of y ic len r x] by auto

lemma concat_map_Nil: "(\<And>x. x \<in> set xs \<Longrightarrow> f x = []) \<Longrightarrow> concat (map f xs) = []"
  by (induction xs) simp_all

lemma matches_needs:
  "needsOneOf S r \<Longrightarrow> set (fst x) \<inter> S = {} \<Longrightarrow> matches False len r x = []"
proof (induction r arbitrary: x)
  case (Chr a)
  then show ?case
    by (cases "fst x") (auto simp: matches.simps oneChar_def canonicalize_def)
next
  case (Seq a b)
  show ?case
  proof (cases "needsOneOf S a")
    case True
    then show ?thesis using Seq.IH(1) Seq.prems(2) by (simp add: matches.simps)
  next
    case False
    with Seq.prems(1) have b: "needsOneOf S b" by simp
    have "matches False len b z = []" if "z \<in> set (matches False len a x)" for z
      using Seq.IH(2)[OF b, of z] matches_suffix_set[OF that] Seq.prems(2) by blast
    then show ?thesis by (simp add: matches.simps concat_map_Nil)
  qed
next
  case (Alt a b)
  then show ?case by (simp add: matches.simps)
next
  case (Group n r)
  then show ?case by (simp add: matches.simps)
next
  case (Plus g r)
  then show ?case by (simp add: matches.simps)
qed simp_all

lemma firstSome_append:
  "firstSome f (xs @ ys) = (case firstSome f xs of Some y \<Rightarrow> Some y | None \<Rightarrow> firstSome f ys)"
  by (induction xs) (auto split: option.splits)

lemma firstSome_None: "(\<And>x. x \<in> set xs \<Longrightarrow> f x = None) \<Longrightarrow> firstSome f xs = None"
  by (induction xs) simp_all

lemma matches_Star_Dot_Cons:
  "\<not> isLineTerminator ch \<Longrightarrow>
     matches ic len (Star True Dot) (ch # s, c) = matches ic len (Star True Dot) (s, c) @ [(ch # s, c)]"
  by (subst matches.simps(10)) (simp add: matches.simps(3) oneChar_def clearCaptures_def)

lemma firstMatch_scan_Cons:
  "\<not> isLineTerminator ch \<Longrightarrow>
     firstMatch ic len (Seq (Star True Dot) t) (ch # s, c)
       = (case firstMatch ic len (Seq (Star True Dot) t) (s, c) of
            Some y \<Rightarrow> Some y
          | None \<Rightarrow> firstMatch ic len t (ch # s, c))"
  by (simp add: firstMatch_Seq matches_Star_Dot_Cons firstSome_append split: option.splits)

lemma firstMatch_scan_None:
  assumes "needsOneOf S t" and "set s \<inter> S = {}"
  shows "firstMatch False len (Seq (Star True Dot) t) (s, c) = None"
proof -
  have "firstMatch False len t z = None" if "z \<in> set (matches False len (Star True Dot) (s, c))" for z
  proof -
    have "set (fst z) \<inter> S = {}" using matches_suffix_set[OF that] assms(2) by auto
    then show ?thesis using matches_needs[OF assms(1)] by (simp add: firstMatch_def)
  qed
  then show ?thesis by (simp add: firstMatch_Seq firstSome_None)
qed

lemma idChar_facts:
  assumes "idChar ch"
  shows "ch \<noteq> CHR ''/''" "ch \<noteq> CHR ''?''" "ch \<noteq> CHR ''#''" "ch \<noteq> CHR ''&''" "ch \<noteq> CHR ''=''"
    "\<not> isLineTerminator ch"
  using assms by (auto simp: idChar_def isWordChar_def isLineTerminator_def Let_def)

lemma canonicalize_False_eq [simp]: "canonicalize False a = canonicalize False b \<longleftrightarrow> a = b"
  by (simp add: canonicalize_def)

lemma in_matches_Chr:
  "y \<in> set (matches False len (Chr a) x) \<longleftrightarrow> (\<exists>rest. fst x = a # rest \<and> y = (rest, snd x))"
proof (cases x)
  case (Pair s c)
  then show ?thesis by (cases s) (auto simp: matches.simps oneChar_def)
qed

lemma in_matches_Dot:
  "y \<in> set (matches ic len Dot x) \<longleftrightarrow>
     (\<exists>ch rest. fst x = ch # rest \<and> \<not> isLineTerminator ch \<and> y = (rest, snd x))"
proof (cases x)
  case (Pair s c)
  then show ?thesis by (cases s) (auto simp: matches.simps oneChar_def)
qed

lemma in_matches_CharSet:
  "y \<in> set (matches ic len (CharSet neg as) x) \<longleftrightarrow>
     (\<exists>ch rest. fst x = ch # rest \<and> (list_ex (\<lambda>a. catomMatches ic a ch) as \<noteq> neg)
        \<and> y = (rest, snd x))"
proof (cases x)
  case (Pair s c)
  then show ?thesis by (cases s) (auto simp: matches.simps oneChar_def)
qed

lemma marker_after_slash:
  assumes "CHR ''/'' \<notin> set s"
  shows "matches False len videoIdMarker (CHR ''/'' # s, c) = []"
proof -
  have "y \<notin> set (matches False len videoIdMarker (CHR ''/'' # s, c))" for y
    using assms
    by (auto simp: videoIdMarker_def lit_def in_matches_Group in_matches_Alt in_matches_Seq
        in_matches_Chr in_matches_Dot in_matches_CharSet)
  then show ?thesis by (meson last_in_set)
qed

subsection \<open>The parts of the video identifier expression\<close>

lemma firstSome_map: "firstSome f (map g xs) = firstSome (\<lambda>x. f (g x)) xs"
  by (induction xs) (simp_all split: option.splits)

lemma matches_Opt_Chr_absent:
  "s = [] \<or> hd s \<noteq> a \<Longrightarrow> matches False len (Opt True (Chr a)) (s, c) = [(s, c)]"
  by (cases s) (auto simp: matches.simps(2,12) oneChar_def)

lemma matches_Opt_Chr_present:
  "matches False len (Opt True (Chr a)) (a # s, c) = [(s, c), (a # s, c)]"
  by (simp add: matches.simps(2,12) oneChar_def clearCaptures_def)

lemma firstMatch_Star_Dot_Nil: "firstMatch ic len (Star True Dot) ([], c) = Some ([], c)"
  by (simp add: firstMatch_def matches.simps(3,10) oneChar_def)

lemma matches_Star_CharSet_Cons:
  "list_ex (\<lambda>a. catomMatches ic a ch) as \<noteq> neg \<Longrightarrow>
     matches ic len (Star True (CharSet neg as)) (ch # s, c)
       = matches ic len (Star True (CharSet neg as)) (s, c) @ [(ch # s, c)]"
  by (subst matches.simps(10)) (simp add: matches.simps(4) oneChar_def clearCaptures_def)

lemma firstSome_Star_CharSet:
  assumes "\<forall>ch \<in> set s. list_ex (\<lambda>a. catomMatches ic a ch) as \<noteq> neg" and "f ([], c) \<noteq> None"
  shows "firstSome f (matches ic len (Star True (CharSet neg as)) (s, c)) = f ([], c)"
  using assms(1)
proof (induction s)
  case Nil
  show ?case using assms(2) by (auto simp: matches.simps(4,10) oneChar_def)
next
  case (Cons ch s)
  then show ?case using assms(2) by (auto simp: matches_Star_CharSet_Cons firstSome_append)
qed

lemma firstMatch_videoIdCapture:
  assumes "CHR ''#'' \<notin> set s" "CHR ''&'' \<notin> set s" "CHR ''?'' \<notin> set s"
  shows "firstMatch False len videoIdCapture (s, c) = Some ([], c(7 \<mapsto> s))"
proof -
  have cls: "\<forall>ch \<in> set s. list_ex (\<lambda>a. catomMatches False a ch)
               [CChar CHR ''#'', CChar CHR ''&'', CChar CHR ''?''] \<noteq> True"
    using assms by auto
  let ?f = "\<lambda>x. firstMatch False len (Star True Dot)
                (fst x, (snd x)(7 \<mapsto> take (length (fst (s, c)) - length (fst x)) (fst (s, c))))"
  have "?f ([], c) = Some ([], c(7 \<mapsto> s))" by (simp add: firstMatch_Star_Dot_Nil)
  then have "firstSome ?f (matches False len
      (Star True (CharSet True [CChar CHR ''#'', CChar CHR ''&'', CChar CHR ''?''])) (s, c))
        = Some ([], c(7 \<mapsto> s))"
    using firstSome_Star_CharSet[OF cls, of ?f c len] by simp
  then show ?thesis
    by (simp add: videoIdCapture_def firstMatch_Seq matches.simps(9) firstSome_map)
qed

lemma videoIdRest_unfold:
  "videoIdRest = Seq (Opt True (Chr CHR ''?'')) (Seq (Opt True (Chr CHR ''v''))
                   (Seq (Opt True (Chr CHR ''='')) videoIdCapture))"
  by (simp add: videoIdRest_def)

text \<open>After the marker: nothing to skip, the letter v alone, or the text v=.\<close>

lemma firstMatch_videoIdRest_plain:
  assumes "CHR ''#'' \<notin> set s" "CHR ''&'' \<notin> set s" "CHR ''?'' \<notin> set s" "CHR ''='' \<notin> set s"
      and "s = [] \<or> hd s \<noteq> CHR ''v''"
  shows "firstMatch False len videoIdRest (s, c) = Some ([], c(7 \<mapsto> s))"
proof -
  have q: "s = [] \<or> hd s \<noteq> CHR ''?''" and e: "s = [] \<or> hd s \<noteq> CHR ''=''"
    using assms(3,4) by (cases s; auto)+
  show ?thesis
    by (simp add: videoIdRest_unfold firstMatch_Seq matches_Opt_Chr_absent[OF q]
        matches_Opt_Chr_absent[OF assms(5)] matches_Opt_Chr_absent[OF e]
        firstMatch_videoIdCapture[OF assms(1,2,3)])
qed

lemma firstMatch_videoIdRest_v:
  assumes "CHR ''#'' \<notin> set s" "CHR ''&'' \<notin> set s" "CHR ''?'' \<notin> set s" "CHR ''='' \<notin> set s"
  shows "firstMatch False len videoIdRest (CHR ''v'' # s, c) = Some ([], c(7 \<mapsto> s))"
proof -
  have q: "CHR ''v'' # s = [] \<or> hd (CHR ''v'' # s) \<noteq> CHR ''?''" by simp
  have e: "s = [] \<or> hd s \<noteq> CHR ''=''" using assms(4) by (cases s; auto)
  show ?thesis
    by (simp add: videoIdRest_unfold firstMatch_Seq matches_Opt_Chr_absent[OF q]
        matches_Opt_Chr_present matches_Opt_Chr_absent[OF e]
        firstMatch_videoIdCapture[OF assms(1,2,3)])
qed

lemma firstMatch_videoIdRest_v_eq:
  assumes "CHR ''#'' \<notin> set s" "CHR ''&'' \<notin> set s" "CHR ''?'' \<notin> set s"
  shows "firstMatch False len videoIdRest (CHR ''v'' # CHR ''='' # s, c) = Some ([], c(7 \<mapsto> s))"
proof -
  have q: "CHR ''v'' # CHR ''='' # s = [] \<or> hd (CHR ''v'' # CHR ''='' # s) \<noteq> CHR ''?''" by simp
  show ?thesis
    by (simp add: videoIdRest_unfold firstMatch_Seq matches_Opt_Chr_absent[OF q]
        matches_Opt_Chr_present firstMatch_videoIdCapture[OF assms(1,2,3)])
qed

lemma firstMatch_scan_prefix:
  assumes "firstMatch ic len (Seq (Star True Dot) t) (s, c) = Some y"
      and "\<forall>ch \<in> set p. \<not> isLineTerminator ch"
  shows "firstMatch ic len (Seq (Star True Dot) t) (p @ s, c) = Some y"
  using assms(2) by (induction p) (simp_all add: firstMatch_scan_Cons assms(1))

lemma videoIdRegExp_unfold: "videoIdRegExp = Seq Bol (Seq (Star True Dot) videoIdTail)"
  by (simp add: videoIdRegExp_def)

lemma videoIdTail_unfold: "videoIdTail = Seq videoIdMarker videoIdRest"
  by (simp add: videoIdTail_def)

lemma videoIdTail_needs: "needsOneOf {CHR ''/'', CHR ''?''} videoIdTail"
  by (simp add: videoIdTail_unfold videoIdMarker_def lit_def)

lemma extractVideoId_from_scan:
  assumes "firstMatch False (length url) (Seq (Star True Dot) videoIdTail) (url, Map.empty) = Some (s', c')"
      and "c' 7 = Some t"
  shows "extractVideoId url = (if length t = 11 then Inr (Some t) else Inr None)"
proof -
  have "firstMatch False (length url) videoIdRegExp (url, Map.empty) = Some (s', c')"
    using assms(1) by (simp add: videoIdRegExp_unfold firstMatch_Seq[of _ _ Bol] matches.simps(5))
  then have "matchAt False videoIdRegExp url 0
      = Some \<lparr> index = 0, matched = take (length url - 0 - length s') (drop 0 url), groups = c' \<rparr>"
    by (simp add: matchAt_def)
  then have "\<exists>m. regExpExec False videoIdRegExp url = Some m \<and> groups m = c'"
    by (simp add: regExpExec_def firstSome_upt del: upt_Suc)
  then show ?thesis using assms(2) by (auto simp: extractVideoId_def)
qed

text \<open>Where the marker cannot start.\<close>

lemma marker_head:
  assumes "ch \<noteq> CHR ''y''" "ch \<noteq> CHR ''v''" "ch \<noteq> CHR ''/''" "ch \<noteq> CHR ''e''" "ch \<noteq> CHR ''w''"
  shows "matches False len videoIdMarker (ch # s, c) = []"
proof -
  have "y \<notin> set (matches False len videoIdMarker (ch # s, c))" for y
    using assms
    by (auto simp: videoIdMarker_def lit_def in_matches_Group in_matches_Alt in_matches_Seq
        in_matches_Chr in_matches_Dot in_matches_CharSet)
  then show ?thesis by (meson last_in_set)
qed

lemma marker_v:
  assumes "d \<noteq> CHR ''/''"
  shows "matches False len videoIdMarker (CHR ''v'' # d # s, c) = []"
proof -
  have "y \<notin> set (matches False len videoIdMarker (CHR ''v'' # d # s, c))" for y
    using assms
    by (auto simp: videoIdMarker_def lit_def in_matches_Group in_matches_Alt in_matches_Seq
        in_matches_Chr in_matches_Dot in_matches_CharSet)
  then show ?thesis by (meson last_in_set)
qed

lemma marker_e:
  assumes "d \<noteq> CHR ''m''"
  shows "matches False len videoIdMarker (CHR ''e'' # d # s, c) = []"
proof -
  have "y \<notin> set (matches False len videoIdMarker (CHR ''e'' # d # s, c))" for y
    using assms
    by (auto simp: videoIdMarker_def lit_def in_matches_Group in_matches_Alt in_matches_Seq
        in_matches_Chr in_matches_Dot in_matches_CharSet)
  then show ?thesis by (meson last_in_set)
qed

lemma tail_none:
  "ch \<noteq> CHR ''y'' \<Longrightarrow> ch \<noteq> CHR ''v'' \<Longrightarrow> ch \<noteq> CHR ''/'' \<Longrightarrow> ch \<noteq> CHR ''e'' \<Longrightarrow> ch \<noteq> CHR ''w''
     \<Longrightarrow> firstMatch False len videoIdTail (ch # s, c) = None"
  "d \<noteq> CHR ''/'' \<Longrightarrow> firstMatch False len videoIdTail (CHR ''v'' # d # s, c) = None"
  "d \<noteq> CHR ''m'' \<Longrightarrow> firstMatch False len videoIdTail (CHR ''e'' # d # s, c) = None"
  "CHR ''/'' \<notin> set s \<Longrightarrow> firstMatch False len videoIdTail (CHR ''/'' # s, c) = None"
  by (simp_all add: videoIdTail_unfold firstMatch_Seq marker_head marker_v marker_e
      marker_after_slash)

lemmas runMarker = videoIdMarker_def lit_def matches.simps(2,3,4,7,8,9) oneChar_def charClasses

lemma marker_watch: "\<exists>c'. matches False len videoIdMarker (''watch?'' @ s, c) = [(s, c')]"
  by (simp add: runMarker)

lemma marker_short: "\<exists>c'. matches False len videoIdMarker (''youtu.be/'' @ s, c) = [(s, c')]"
  by (simp add: runMarker)

lemma marker_embed: "\<exists>c'. matches False len videoIdMarker (''embed/'' @ s, c) = [(s, c')]"
  by (simp add: runMarker)

lemma idChars_facts:
  assumes "list_all idChar vid"
  shows "CHR ''/'' \<notin> set vid" "CHR ''?'' \<notin> set vid" "CHR ''#'' \<notin> set vid" "CHR ''&'' \<notin> set vid"
    "CHR ''='' \<notin> set vid" "\<forall>ch \<in> set vid. \<not> isLineTerminator ch"
proof -
  have all: "idChar ch" if "ch \<in> set vid" for ch
    using assms that by (simp add: list_all_iff)
  show "CHR ''/'' \<notin> set vid" using all[of "CHR ''/''"] idChar_facts(1)[of "CHR ''/''"] by fast
  show "CHR ''?'' \<notin> set vid" using all[of "CHR ''?''"] idChar_facts(2)[of "CHR ''?''"] by fast
  show "CHR ''#'' \<notin> set vid" using all[of "CHR ''#''"] idChar_facts(3)[of "CHR ''#''"] by fast
  show "CHR ''&'' \<notin> set vid" using all[of "CHR ''&''"] idChar_facts(4)[of "CHR ''&''"] by fast
  show "CHR ''='' \<notin> set vid" using all[of "CHR ''=''"] idChar_facts(5)[of "CHR ''=''"] by fast
  show "\<forall>ch \<in> set vid. \<not> isLineTerminator ch" using all idChar_facts(6) by fast
qed

lemma ok_watch:
  assumes "list_all idChar vid"
    and cm: "matches False len videoIdMarker (''watch?'' @ CHR ''v'' # CHR ''='' # vid, Map.empty)
      = [(CHR ''v'' # CHR ''='' # vid, cm)]"
  shows "firstMatch False len videoIdTail (''watch?v='' @ vid, Map.empty) = Some ([], cm(7 \<mapsto> vid))"
proof -
  note f = idChars_facts[OF assms(1)]
  have "firstMatch False len videoIdRest (CHR ''v'' # CHR ''='' # vid, cm) = Some ([], cm(7 \<mapsto> vid))"
    by (rule firstMatch_videoIdRest_v_eq[OF f(3,4,2)])
  then show ?thesis
    using cm by (simp add: videoIdTail_unfold firstMatch_Seq)
qed


section \<open>Properties of analyzeCoverage\<close>

lemma parseSubtopic_subtopic: "parseSubtopic e responseText sub = Inr y \<Longrightarrow> subtopic y = sub"
  by (auto simp: parseSubtopic_def split: sum.splits option.splits)

lemma mapThrowing_inverse:
  assumes "\<And>x y. f x = Inr y \<Longrightarrow> g y = x"
  shows "mapThrowing f xs = Inr ys \<Longrightarrow> map g ys = xs"
proof (induction xs arbitrary: ys)
  case Nil
  then show ?case by simp
next
  case (Cons x xs)
  from Cons.prems obtain y ys' where fx: "f x = Inr y" and rest: "mapThrowing f xs = Inr ys'"
      and ys: "ys = y # ys'"
    by (auto split: sum.splits)
  show ?case using assms[OF fx] Cons.IH[OF rest] ys by simp
qed

lemma analyzeCoverageTry_subtopics:
  assumes "analyzeCoverageTry e transcript subtopics topicText = Inr report"
  shows "map subtopic (subtopicAnalysis report) = subtopics"
proof -
  from assms obtain responseText analysis
    where m: "mapThrowing (parseSubtopic e responseText) subtopics = Inr analysis"
      and r: "report = successReport subtopics analysis"
    by (auto simp: analyzeCoverageTry_def split: sum.splits)
  have "map subtopic analysis = subtopics"
    using mapThrowing_inverse[where f = "parseSubtopic e responseText" and g = subtopic, OF _ m]
      parseSubtopic_subtopic by blast
  then show ?thesis using r by (simp add: successReport_def)
qed

lemma failureReport_subtopics: "map subtopic (subtopicAnalysis (failureReport subtopics)) = subtopics"
  by (induction subtopics) (simp_all add: failureReport_def failedResult_def)

text \<open>
  C1. For every transcript and every subtopic list, whatever the completion service and the
  regular expressions do, the report of \<open>analyzeCoverage\<close> has one entry per input subtopic,
  in the input order, entry \<open>i\<close> carrying label \<open>i\<close>. The statement covers the success path and
  the failure path, and needs no assumption that the list is non-empty.
\<close>

theorem analyzeCoverage_keeps_subtopics:
  "length (subtopicAnalysis (analyzeCoverage e transcript subtopics topicText)) = length subtopics
   \<and> map subtopic (subtopicAnalysis (analyzeCoverage e transcript subtopics topicText)) = subtopics"
proof -
  have "map subtopic (subtopicAnalysis (analyzeCoverage e transcript subtopics topicText)) = subtopics"
  proof (cases "analyzeCoverageTry e transcript subtopics topicText")
    case (Inl err)
    then show ?thesis by (simp add: analyzeCoverage_def failureReport_subtopics)
  next
    case (Inr report)
    then show ?thesis by (simp add: analyzeCoverage_def analyzeCoverageTry_subtopics)
  qed
  moreover from this
  have "length (subtopicAnalysis (analyzeCoverage e transcript subtopics topicText)) = length subtopics"
    by (metis length_map)
  ultimately show ?thesis by simp
qed

text \<open>
  C2. If the completion request throws, \<open>analyzeCoverage\<close> still returns: the report has
  overall score 0, every subtopic with score 0, not covered and the evidence
  "Failed to analyze coverage.", and the summary "Failed to generate coverage analysis.".
  Nothing before the request can throw.
\<close>

theorem analyzeCoverage_completion_failure:
  assumes "callGroq e (buildMessages transcript subtopics) 2000 = Inl err"
  shows "analyzeCoverage e transcript subtopics topicText =
           \<lparr> overallScore = Finite 0,
             subtopicAnalysis =
               map (\<lambda>sub. \<lparr> subtopic = sub, coverageScore = Finite 0, covered = False,
                             evidence = ''Failed to analyze coverage.'' \<rparr>) subtopics,
             summary = ''Failed to generate coverage analysis.'' \<rparr>"
proof -
  have "analyzeCoverageTry e transcript subtopics topicText = Inl err"
    using assms by (simp add: analyzeCoverageTry_def)
  then show ?thesis
    by (simp add: analyzeCoverage_def failureReport_def failedResult_def)
qed

theorem analyzeCoverage_completion_failure_witness:
  "analyzeCoverage (completionEnv (Inl (Error ''Network Error''))) ''a transcript''
       [''Loops'', ''Arrays''] ''Python'' =
     \<lparr> overallScore = Finite 0,
       subtopicAnalysis =
         [\<lparr> subtopic = ''Loops'', coverageScore = Finite 0, covered = False,
            evidence = ''Failed to analyze coverage.'' \<rparr>,
          \<lparr> subtopic = ''Arrays'', coverageScore = Finite 0, covered = False,
            evidence = ''Failed to analyze coverage.'' \<rparr>],
       summary = ''Failed to generate coverage analysis.'' \<rparr>"
proof -
  have "callGroq (completionEnv (Inl (Error ''Network Error'')))
          (buildMessages ''a transcript'' [''Loops'', ''Arrays'']) 2000 = Inl (Error ''Network Error'')"
    by (simp add: callGroq_def completionEnv_def)
  from analyzeCoverage_completion_failure[OF this] show ?thesis by simp
qed

text \<open>
  C7. The transcript embedded in the prompt of the completion request is the input transcript
  when that has at most 4000 characters, and otherwise its first 4000 characters followed by
  the marker "... [truncated]"; the user message is the fixed head, that text between double
  quotes, and the subtopics joined by ", ".
\<close>

theorem prompt_embeds_truncated_transcript:
  "(length transcript \<le> 4000 \<longrightarrow> truncateTranscript transcript = transcript)
   \<and> (4000 < length transcript \<longrightarrow>
        truncateTranscript transcript = take 4000 transcript @ ''... [truncated]''
        \<and> length (truncateTranscript transcript) = 4015)
   \<and> map content (buildMessages transcript subtopics) =
       [''You are an educational content analyst.'',
        promptHead @ truncateTranscript transcript @ [CHR 0x22]
          @ ''\<newline>\<newline>Subtopics: '' @ join '', '' subtopics]"
  by (simp add: truncateTranscript_def buildMessages_def buildPrompt_def)

theorem prompt_embeds_truncated_transcript_witness:
  "truncateTranscript ''short transcript'' = ''short transcript''
   \<and> truncateTranscript (replicate 4001 CHR ''a'') = replicate 4000 CHR ''a'' @ ''... [truncated]''
   \<and> length (truncateTranscript (replicate 4001 CHR ''a'')) = 4015"
proof -
  have short: "length ''short transcript'' \<le> 4000" by simp
  have long: "4000 < length (replicate 4001 CHR ''a'')" by simp
  from prompt_embeds_truncated_transcript[of "''short transcript''"] short
  have 1: "truncateTranscript ''short transcript'' = ''short transcript''" by blast
  from prompt_embeds_truncated_transcript[of "replicate 4001 CHR ''a''"] long
  have 2: "truncateTranscript (replicate 4001 CHR ''a'')
             = take 4000 (replicate 4001 CHR ''a'') @ ''... [truncated]''
           \<and> length (truncateTranscript (replicate 4001 CHR ''a'')) = 4015" by blast
  from 1 2 show ?thesis by simp
qed

section \<open>Properties of the endpoints\<close>

text \<open>
  C8. The health response is made of the two fixed texts and of two Booleans, each of which
  is true exactly when its secret is set to a non-empty value; and two configurations that
  agree on that give the same response, whatever the secrets are.
\<close>

theorem health_hides_secrets:
  "healthHandler cfg
     = \<lparr> status = ''OK'', message = ''Server running'',
         hasGroqKey = (\<exists>key. groqApiKey cfg = Some key \<and> key \<noteq> []),
         hasYouTubeKey = (\<exists>key. youtubeApiKey cfg = Some key \<and> key \<noteq> []) \<rparr>
   \<and> (((\<exists>key. groqApiKey a = Some key \<and> key \<noteq> []) = (\<exists>key. groqApiKey b = Some key \<and> key \<noteq> [])
        \<and> (\<exists>key. youtubeApiKey a = Some key \<and> key \<noteq> [])
            = (\<exists>key. youtubeApiKey b = Some key \<and> key \<noteq> []))
       \<longrightarrow> healthHandler a = healthHandler b)"
proof -
  have t: "truthy v = (\<exists>key. v = Some key \<and> key \<noteq> [])" for v
    by (cases v) (simp_all add: truthy_def)
  show ?thesis by (simp add: healthHandler_def t)
qed

theorem health_hides_secrets_witness:
  "healthHandler \<lparr> groqApiKey = Some ''gsk_first'', youtubeApiKey = None \<rparr>
     = \<lparr> status = ''OK'', message = ''Server running'', hasGroqKey = True, hasYouTubeKey = False \<rparr>
   \<and> healthHandler \<lparr> groqApiKey = Some ''gsk_second'', youtubeApiKey = Some [] \<rparr>
     = \<lparr> status = ''OK'', message = ''Server running'', hasGroqKey = True, hasYouTubeKey = False \<rparr>
   \<and> healthHandler \<lparr> groqApiKey = None, youtubeApiKey = Some ''AIza_third'' \<rparr>
     = \<lparr> status = ''OK'', message = ''Server running'', hasGroqKey = False, hasYouTubeKey = True \<rparr>
   \<and> healthHandler \<lparr> groqApiKey = Some ''gsk_first'', youtubeApiKey = None \<rparr>
     = healthHandler \<lparr> groqApiKey = Some ''gsk_second'', youtubeApiKey = Some [] \<rparr>"
proof -
  let ?a = "\<lparr> groqApiKey = Some ''gsk_first'', youtubeApiKey = None \<rparr>"
  let ?b = "\<lparr> groqApiKey = Some ''gsk_second'', youtubeApiKey = Some [] \<rparr>"
  let ?c = "\<lparr> groqApiKey = None, youtubeApiKey = Some ''AIza_third'' \<rparr>"
  from health_hides_secrets[of ?a ?a ?b, THEN conjunct1]
  have 1: "healthHandler ?a
      = \<lparr> status = ''OK'', message = ''Server running'', hasGroqKey = True, hasYouTubeKey = False \<rparr>"
    by simp
  from health_hides_secrets[of ?a ?a ?b, THEN conjunct2]
  have 4: "healthHandler ?a = healthHandler ?b"
    by simp
  from health_hides_secrets[of ?b ?a ?a, THEN conjunct1]
  have 2: "healthHandler ?b
      = \<lparr> status = ''OK'', message = ''Server running'', hasGroqKey = True, hasYouTubeKey = False \<rparr>"
    by simp
  from health_hides_secrets[of ?c ?a ?a, THEN conjunct1]
  have 3: "healthHandler ?c
      = \<lparr> status = ''OK'', message = ''Server running'', hasGroqKey = False, hasYouTubeKey = True \<rparr>"
    by simp
  from 1 2 3 4 show ?thesis by simp
qed


section \<open>Properties of extractVideoId\<close>

text \<open>
  C9. \<open>extractVideoId\<close> returns for every string: the matcher terminates, capture 7 is defined
  whenever the expression matches, so reading its length never throws, and the result is
  \<^verbatim>\<open>null\<close> or a string of exactly 11 characters.
\<close>

theorem extractVideoId_null_or_11:
  "extractVideoId url = Inr None \<or> (\<exists>t. extractVideoId url = Inr (Some t) \<and> length t = 11)"
proof (cases "regExpExec False videoIdRegExp url")
  case None
  then show ?thesis by (simp add: extractVideoId_def)
next
  case (Some m)
  have "definesGroup 7 videoIdRegExp"
    by (simp add: videoIdRegExp_def videoIdTail_def videoIdRest_def videoIdCapture_def
        videoIdMarker_def)
  from regExpExec_defines[OF this Some] obtain t where "groups m 7 = Some t" by auto
  then show ?thesis using Some by (simp add: extractVideoId_def)
qed

lemmas runExtract = extractVideoId_def videoIdRegExp_def videoIdTail_def videoIdRest_def
  videoIdCapture_def videoIdMarker_def lit_def runMatcher

lemma extractVideoId_not_a_url: "extractVideoId ''not a url'' = Inr None"
  by (simp add: runExtract)

subsection \<open>The three URL forms\<close>

text \<open>
  Below, \<open>vid\<close> is an identifier of 11 characters (letters, digits, underscore, hyphen) and
  \<open>p\<close> is any text without a line break, such as \<^verbatim>\<open>https://www.youtube.com/\<close>.
\<close>

lemma extractVideoId_watch_form:
  assumes "length vid = 11" and "list_all idChar vid" and "\<forall>ch \<in> set p. \<not> isLineTerminator ch"
  shows "extractVideoId (p @ ''watch?v='' @ vid) = Inr (Some vid)"
proof -
  let ?url = "p @ ''watch?v='' @ vid"
  let ?len = "length ?url"
  note f = idChars_facts[OF assms(2)]
  have inner: "firstMatch False ?len (Seq (Star True Dot) videoIdTail) (vid, Map.empty) = None"
    by (rule firstMatch_scan_None[OF videoIdTail_needs]) (use f in auto)
  obtain cm where cm: "matches False ?len videoIdMarker (''watch?'' @ CHR ''v'' # CHR ''='' # vid, Map.empty)
      = [(CHR ''v'' # CHR ''='' # vid, cm)]"
    using marker_watch by blast
  have ok: "firstMatch False ?len videoIdTail (''watch?v='' @ vid, Map.empty) = Some ([], cm(7 \<mapsto> vid))"
    by (rule ok_watch[OF assms(2) cm])
  have "firstMatch False ?len (Seq (Star True Dot) videoIdTail) (''watch?v='' @ vid, Map.empty)
      = Some ([], cm(7 \<mapsto> vid))"
    using inner ok by (simp add: firstMatch_scan_Cons tail_none isLineTerminator_def)
  from firstMatch_scan_prefix[OF this assms(3)]
  have "firstMatch False ?len (Seq (Star True Dot) videoIdTail) (?url, Map.empty)
      = Some ([], cm(7 \<mapsto> vid))" .
  from extractVideoId_from_scan[OF this, of vid] show ?thesis using assms(1) by simp
qed

lemma extractVideoId_short_form:
  assumes "length vid = 11" and "list_all idChar vid" and "\<forall>ch \<in> set p. \<not> isLineTerminator ch"
  shows "extractVideoId (p @ ''youtu.be/'' @ vid)
           = (if hd vid = CHR ''v'' then Inr None else Inr (Some vid))"
proof -
  let ?url = "p @ ''youtu.be/'' @ vid"
  let ?len = "length ?url"
  note f = idChars_facts[OF assms(2)]
  from assms(1) obtain c1 vid' where vid: "vid = c1 # vid'" by (cases vid) auto
  have inner: "firstMatch False ?len (Seq (Star True Dot) videoIdTail) (vid, Map.empty) = None"
    by (rule firstMatch_scan_None[OF videoIdTail_needs]) (use f in auto)
  obtain cm where cm: "matches False ?len videoIdMarker (''youtu.be/'' @ vid, Map.empty) = [(vid, cm)]"
    using marker_short by blast
  define t where "t = (if hd vid = CHR ''v'' then vid' else vid)"
  have rest: "firstMatch False ?len videoIdRest (vid, cm) = Some ([], cm(7 \<mapsto> t))"
  proof (cases "c1 = CHR ''v''")
    case True
    have "firstMatch False ?len videoIdRest (CHR ''v'' # vid', cm) = Some ([], cm(7 \<mapsto> vid'))"
      by (rule firstMatch_videoIdRest_v) (use f vid in auto)
    then show ?thesis using True vid by (simp add: t_def)
  next
    case False
    have "firstMatch False ?len videoIdRest (vid, cm) = Some ([], cm(7 \<mapsto> vid))"
      by (rule firstMatch_videoIdRest_plain) (use f vid False in auto)
    then show ?thesis using False vid by (simp add: t_def)
  qed
  have ok: "firstMatch False ?len videoIdTail (''youtu.be/'' @ vid, Map.empty) = Some ([], cm(7 \<mapsto> t))"
    using cm rest by (simp add: videoIdTail_unfold firstMatch_Seq)
  have "firstMatch False ?len (Seq (Star True Dot) videoIdTail) (''youtu.be/'' @ vid, Map.empty)
      = Some ([], cm(7 \<mapsto> t))"
    using inner ok f(1) by (simp add: firstMatch_scan_Cons tail_none isLineTerminator_def)
  from firstMatch_scan_prefix[OF this assms(3)]
  have "firstMatch False ?len (Seq (Star True Dot) videoIdTail) (?url, Map.empty)
      = Some ([], cm(7 \<mapsto> t))" .
  from extractVideoId_from_scan[OF this, of t] show ?thesis
    using assms(1) vid by (auto simp: t_def)
qed

lemma extractVideoId_embed_form:
  assumes "length vid = 11" and "list_all idChar vid" and "\<forall>ch \<in> set p. \<not> isLineTerminator ch"
  shows "extractVideoId (p @ ''embed/'' @ vid)
           = (if hd vid = CHR ''v'' then Inr None else Inr (Some vid))"
proof -
  let ?url = "p @ ''embed/'' @ vid"
  let ?len = "length ?url"
  note f = idChars_facts[OF assms(2)]
  from assms(1) obtain c1 vid' where vid: "vid = c1 # vid'" by (cases vid) auto
  have inner: "firstMatch False ?len (Seq (Star True Dot) videoIdTail) (vid, Map.empty) = None"
    by (rule firstMatch_scan_None[OF videoIdTail_needs]) (use f in auto)
  obtain cm where cm: "matches False ?len videoIdMarker (''embed/'' @ vid, Map.empty) = [(vid, cm)]"
    using marker_embed by blast
  define t where "t = (if hd vid = CHR ''v'' then vid' else vid)"
  have rest: "firstMatch False ?len videoIdRest (vid, cm) = Some ([], cm(7 \<mapsto> t))"
  proof (cases "c1 = CHR ''v''")
    case True
    have "firstMatch False ?len videoIdRest (CHR ''v'' # vid', cm) = Some ([], cm(7 \<mapsto> vid'))"
      by (rule firstMatch_videoIdRest_v) (use f vid in auto)
    then show ?thesis using True vid by (simp add: t_def)
  next
    case False
    have "firstMatch False ?len videoIdRest (vid, cm) = Some ([], cm(7 \<mapsto> vid))"
      by (rule firstMatch_videoIdRest_plain) (use f vid False in auto)
    then show ?thesis using False vid by (simp add: t_def)
  qed
  have ok: "firstMatch False ?len videoIdTail (''embed/'' @ vid, Map.empty) = Some ([], cm(7 \<mapsto> t))"
    using cm rest by (simp add: videoIdTail_unfold firstMatch_Seq)
  have "firstMatch False ?len (Seq (Star True Dot) videoIdTail) (''embed/'' @ vid, Map.empty)
      = Some ([], cm(7 \<mapsto> t))"
    using inner ok f(1) by (simp add: firstMatch_scan_Cons tail_none isLineTerminator_def)
  from firstMatch_scan_prefix[OF this assms(3)]
  have "firstMatch False ?len (Seq (Star True Dot) videoIdTail) (?url, Map.empty)
      = Some ([], cm(7 \<mapsto> t))" .
  from extractVideoId_from_scan[OF this, of t] show ?thesis
    using assms(1) vid by (auto simp: t_def)
qed

text \<open>
  C5, as far as the code goes. The identifier is returned from the watch form. From the short
  and the embed form it is returned only if it does not start with the letter v: there the
  \<^verbatim>\<open>v?\<close> of the pattern, meant for the \<^verbatim>\<open>v=\<close> of the watch form, takes the first letter
  of the identifier, capture 7 has 10 characters, and the result is \<^verbatim>\<open>null\<close>.
\<close>

theorem extractVideoId_url_forms:
  assumes "length vid = 11" and "list_all idChar vid" and "\<forall>ch \<in> set p. \<not> isLineTerminator ch"
  shows "extractVideoId (p @ ''watch?v='' @ vid) = Inr (Some vid)
       \<and> extractVideoId (p @ ''youtu.be/'' @ vid)
           = (if hd vid = CHR ''v'' then Inr None else Inr (Some vid))
       \<and> extractVideoId (p @ ''embed/'' @ vid)
           = (if hd vid = CHR ''v'' then Inr None else Inr (Some vid))"
  using extractVideoId_watch_form[OF assms] extractVideoId_short_form[OF assms]
    extractVideoId_embed_form[OF assms]
  by simp

theorem extractVideoId_url_forms_witness:
  "extractVideoId ''https://www.youtube.com/watch?v=vQw4w9WgXcQ'' = Inr (Some ''vQw4w9WgXcQ'')
   \<and> extractVideoId ''https://www.youtube.com/embed/vQw4w9WgXcQ'' = Inr None
   \<and> extractVideoId ''https://youtu.be/vQw4w9WgXcQ'' = Inr None
   \<and> extractVideoId ''https://youtu.be/dQw4w9WgXcQ'' = Inr (Some ''dQw4w9WgXcQ'')"
  using extractVideoId_url_forms[of "''vQw4w9WgXcQ''" "''https://www.youtube.com/''"]
    extractVideoId_url_forms[of "''vQw4w9WgXcQ''" "''https://''"]
    extractVideoId_url_forms[of "''dQw4w9WgXcQ''" "''https://''"]
  by (simp add: idChar_def isWordChar_def isLineTerminator_def)

section \<open>Properties of POST /api/analyze\<close>

lemma destructureBody_value:
  "v \<noteq> JNull \<Longrightarrow>
     destructureBody (Some v)
       = Inr (memberOf v ''youtubeUrl'', memberOf v ''topic'', memberOf v ''customSubtopics'')"
  by (cases v) (simp_all add: destructureBody_def)

text \<open>
  C6, as the code has it. For a body \<open>v\<close> that has been parsed: when one of the three
  members is missing or otherwise falsy, or \<^verbatim>\<open>customSubtopics\<close> has length 0, the answer is
  status 400 with the error body of line 136; when the members pass that test and
  \<^verbatim>\<open>youtubeUrl\<close> is a string that gives no video identifier, the answer is status 400 with
  the error body of line 140. The code departs from the claim in two places: when the members
  pass the test and \<^verbatim>\<open>youtubeUrl\<close> is not a string, \<^verbatim>\<open>url.match\<close> throws and the answer is
  status 500; and when no body has been parsed, the destructuring of line 133 throws and the
  answer is status 500. In all four cases nothing is sent to the outside world.
\<close>

theorem analyzeHandler_rejects_bad_request:
  "(v \<noteq> JNull
      \<and> (\<not> truthyValue (memberOf v ''youtubeUrl'') \<or> \<not> truthyValue (memberOf v ''topic'')
         \<or> \<not> truthyValue (memberOf v ''customSubtopics'')
         \<or> lengthIsZero (memberOf v ''customSubtopics''))
     \<longrightarrow> analyzeHandler e (Some v)
           = (\<lparr> statusCode = 400,
                body = ErrorBody ''YouTube URL, topic, and at least one subtopic are required.'' None \<rparr>,
              []))
   \<and> (v \<noteq> JNull
      \<and> truthyValue (memberOf v ''youtubeUrl'') \<and> truthyValue (memberOf v ''topic'')
      \<and> truthyValue (memberOf v ''customSubtopics'')
      \<and> \<not> lengthIsZero (memberOf v ''customSubtopics'')
      \<and> memberOf v ''youtubeUrl'' = Some (JString url) \<and> extractVideoId url = Inr None
     \<longrightarrow> analyzeHandler e (Some v)
           = (\<lparr> statusCode = 400, body = ErrorBody ''Invalid YouTube URL.'' None \<rparr>, []))
   \<and> (v \<noteq> JNull
      \<and> truthyValue (memberOf v ''youtubeUrl'') \<and> truthyValue (memberOf v ''topic'')
      \<and> truthyValue (memberOf v ''customSubtopics'')
      \<and> \<not> lengthIsZero (memberOf v ''customSubtopics'')
      \<and> (\<forall>s. memberOf v ''youtubeUrl'' \<noteq> Some (JString s))
     \<longrightarrow> analyzeHandler e (Some v)
           = (\<lparr> statusCode = 500,
                body = ErrorBody ''url.match is not a function''
                         (Some ''Please check API keys and try again.'') \<rparr>,
              []))
   \<and> analyzeHandler e None
       = (\<lparr> statusCode = 500,
            body = ErrorBody
                     ''Cannot destructure property 'youtubeUrl' of 'req.body' as it is undefined.''
                     (Some ''Please check API keys and try again.'') \<rparr>,
          [])"
proof (intro conjI impI)
  assume h: "v \<noteq> JNull
      \<and> (\<not> truthyValue (memberOf v ''youtubeUrl'') \<or> \<not> truthyValue (memberOf v ''topic'')
         \<or> \<not> truthyValue (memberOf v ''customSubtopics'')
         \<or> lengthIsZero (memberOf v ''customSubtopics''))"
  then show "analyzeHandler e (Some v)
           = (\<lparr> statusCode = 400,
                body = ErrorBody ''YouTube URL, topic, and at least one subtopic are required.'' None \<rparr>,
              [])"
    by (simp add: analyzeHandler_def destructureBody_value)
next
  assume h: "v \<noteq> JNull
      \<and> truthyValue (memberOf v ''youtubeUrl'') \<and> truthyValue (memberOf v ''topic'')
      \<and> truthyValue (memberOf v ''customSubtopics'')
      \<and> \<not> lengthIsZero (memberOf v ''customSubtopics'')
      \<and> memberOf v ''youtubeUrl'' = Some (JString url) \<and> extractVideoId url = Inr None"
  then have "extractVideoIdOf (the (memberOf v ''youtubeUrl'')) = Inr None"
    by (simp add: extractVideoIdOf_def)
  moreover from h have "truthyValue (Some (JString url))" by metis
  ultimately show "analyzeHandler e (Some v)
           = (\<lparr> statusCode = 400, body = ErrorBody ''Invalid YouTube URL.'' None \<rparr>, [])"
    using h by (simp add: analyzeHandler_def destructureBody_value)
next
  assume h: "v \<noteq> JNull
      \<and> truthyValue (memberOf v ''youtubeUrl'') \<and> truthyValue (memberOf v ''topic'')
      \<and> truthyValue (memberOf v ''customSubtopics'')
      \<and> \<not> lengthIsZero (memberOf v ''customSubtopics'')
      \<and> (\<forall>s. memberOf v ''youtubeUrl'' \<noteq> Some (JString s))"
  then obtain w where w: "memberOf v ''youtubeUrl'' = Some w" and "\<forall>s. w \<noteq> JString s"
    by (cases "memberOf v ''youtubeUrl''") auto
  then have "extractVideoIdOf (the (memberOf v ''youtubeUrl''))
               = Inl (TypeError ''url.match is not a function'')"
    by (cases w) (simp_all add: extractVideoIdOf_def)
  with h show "analyzeHandler e (Some v)
           = (\<lparr> statusCode = 500,
                body = ErrorBody ''url.match is not a function''
                         (Some ''Please check API keys and try again.'') \<rparr>,
              [])"
    by (simp add: analyzeHandler_def destructureBody_value serverError_def)
next
  show "analyzeHandler e None
       = (\<lparr> statusCode = 500,
            body = ErrorBody
                     ''Cannot destructure property 'youtubeUrl' of 'req.body' as it is undefined.''
                     (Some ''Please check API keys and try again.'') \<rparr>,
          [])"
    by (simp add: analyzeHandler_def destructureBody_def serverError_def)
qed

text \<open>
  Five requests: an empty list of subtopics, no topic, a URL that is not one, a URL that is a
  number, and no body.
\<close>

theorem analyzeHandler_rejects_bad_request_witness:
  "analyzeHandler (completionEnv (Inr ''unused''))
       (Some (JObject [(''youtubeUrl'', JString ''https://youtu.be/dQw4w9WgXcQ''),
                       (''topic'', JString ''Python''), (''customSubtopics'', JArray [])]))
     = (\<lparr> statusCode = 400,
          body = ErrorBody ''YouTube URL, topic, and at least one subtopic are required.'' None \<rparr>, [])
   \<and> analyzeHandler (completionEnv (Inr ''unused''))
       (Some (JObject [(''youtubeUrl'', JString ''https://youtu.be/dQw4w9WgXcQ''),
                       (''customSubtopics'', JArray [JString ''Loops''])]))
     = (\<lparr> statusCode = 400,
          body = ErrorBody ''YouTube URL, topic, and at least one subtopic are required.'' None \<rparr>, [])
   \<and> analyzeHandler (completionEnv (Inr ''unused''))
       (Some (JObject [(''youtubeUrl'', JString ''not a url''), (''topic'', JString ''Python''),
                       (''customSubtopics'', JArray [JString ''Loops''])]))
     = (\<lparr> statusCode = 400, body = ErrorBody ''Invalid YouTube URL.'' None \<rparr>, [])
   \<and> analyzeHandler (completionEnv (Inr ''unused''))
       (Some (JObject [(''youtubeUrl'', JNumber (Finite 12345)), (''topic'', JString ''x''),
                       (''customSubtopics'', JArray [JString ''a''])]))
     = (\<lparr> statusCode = 500,
          body = ErrorBody ''url.match is not a function''
                   (Some ''Please check API keys and try again.'') \<rparr>, [])
   \<and> analyzeHandler (completionEnv (Inr ''unused'')) None
     = (\<lparr> statusCode = 500,
          body = ErrorBody
                   ''Cannot destructure property 'youtubeUrl' of 'req.body' as it is undefined.''
                   (Some ''Please check API keys and try again.'') \<rparr>, [])"
proof -
  let ?e = "completionEnv (Inr ''unused'')"
  let ?v1 = "JObject [(''youtubeUrl'', JString ''https://youtu.be/dQw4w9WgXcQ''),
                      (''topic'', JString ''Python''), (''customSubtopics'', JArray [])]"
  let ?v2 = "JObject [(''youtubeUrl'', JString ''https://youtu.be/dQw4w9WgXcQ''),
                      (''customSubtopics'', JArray [JString ''Loops''])]"
  let ?v3 = "JObject [(''youtubeUrl'', JString ''not a url''), (''topic'', JString ''Python''),
                      (''customSubtopics'', JArray [JString ''Loops''])]"
  let ?v4 = "JObject [(''youtubeUrl'', JNumber (Finite 12345)), (''topic'', JString ''x''),
                      (''customSubtopics'', JArray [JString ''a''])]"
  note run = memberOf_def lengthIsZero_def lengthProp_def extractVideoId_not_a_url
  from analyzeHandler_rejects_bad_request[where v = ?v1 and e = ?e]
  have 1: "analyzeHandler ?e (Some ?v1)
     = (\<lparr> statusCode = 400,
          body = ErrorBody ''YouTube URL, topic, and at least one subtopic are required.'' None \<rparr>, [])"
    and 5: "analyzeHandler ?e None
     = (\<lparr> statusCode = 500,
          body = ErrorBody
                   ''Cannot destructure property 'youtubeUrl' of 'req.body' as it is undefined.''
                   (Some ''Please check API keys and try again.'') \<rparr>, [])"
    by (simp_all add: run)
  from analyzeHandler_rejects_bad_request[where v = ?v2 and e = ?e]
  have 2: "analyzeHandler ?e (Some ?v2)
     = (\<lparr> statusCode = 400,
          body = ErrorBody ''YouTube URL, topic, and at least one subtopic are required.'' None \<rparr>, [])"
    by (simp add: run)
  from analyzeHandler_rejects_bad_request[where v = ?v3 and e = ?e and url = "''not a url''"]
  have 3: "analyzeHandler ?e (Some ?v3)
     = (\<lparr> statusCode = 400, body = ErrorBody ''Invalid YouTube URL.'' None \<rparr>, [])"
    by (simp add: run)
  from analyzeHandler_rejects_bad_request[where v = ?v4 and e = ?e]
  have 4: "analyzeHandler ?e (Some ?v4)
     = (\<lparr> statusCode = 500,
          body = ErrorBody ''url.match is not a function''
                   (Some ''Please check API keys and try again.'') \<rparr>, [])"
    by (simp add: run)
  from 1 2 3 4 5 show ?thesis by simp
qed


section \<open>Facts about numbers\<close>

lemma pow2_powi: "pow2 k = 2 powi k"
  by (simp add: pow2_def power_int_def divide_simps)

lemma pow2_pos [simp]: "0 < pow2 k"
  by (simp add: pow2_def)

lemma pow2_add: "pow2 (a + b) = pow2 a * pow2 b"
  by (simp add: pow2_powi power_int_add)

lemma pow2_diff: "pow2 (a - b) = pow2 a / pow2 b"
  by (simp add: pow2_powi power_int_diff)

lemma pow2_nat: "pow2 (int n) = 2 ^ n"
  by (simp add: pow2_def)

lemma pow2_mono: "a \<le> b \<Longrightarrow> pow2 a \<le> pow2 b"
  by (simp add: pow2_powi power_int_increasing)

lemma pow2_strict_mono: "a < b \<Longrightarrow> pow2 a < pow2 b"
  by (simp add: pow2_powi power_int_strict_increasing)

lemma pow2_le_iff: "pow2 a \<le> pow2 b \<longleftrightarrow> a \<le> b"
  using pow2_mono[of a b] pow2_strict_mono[of b a] by (auto simp: not_le[symmetric])

lemma pow2_less_iff: "pow2 a < pow2 b \<longleftrightarrow> a < b"
  using pow2_strict_mono[of a b] pow2_mono[of b a] by (auto simp: not_less[symmetric])

lemma bitLength_pos: "0 < n \<Longrightarrow> 0 < bitLength n"
  by (simp add: bitLength.simps[of n])

lemma bitLength_bounds: "0 < n \<Longrightarrow> 2 ^ (bitLength n - 1) \<le> n \<and> n < 2 ^ bitLength n"
proof (induction n rule: bitLength.induct)
  case (1 n)
  show ?case
  proof (cases "n div 2 \<le> 0")
    case True
    with 1(2) have "n = 1" by simp
    then show ?thesis by (simp add: bitLength.simps[of 1] bitLength.simps[of 0])
  next
    case False
    then have pos: "0 < n div 2" by simp
    from 1(2) have "\<not> n \<le> 0" by simp
    from 1(1)[OF this pos]
    have ih: "2 ^ (bitLength (n div 2) - 1) \<le> n div 2" "n div 2 < 2 ^ bitLength (n div 2)"
      by simp_all
    have b: "bitLength n = Suc (bitLength (n div 2))" using 1(2) by (simp add: bitLength.simps[of n])
    obtain k where k: "bitLength (n div 2) = Suc k"
      using bitLength_pos[OF pos] by (cases "bitLength (n div 2)") auto
    from ih k have "2 ^ k \<le> n div 2" "n div 2 < 2 ^ Suc k" by simp_all
    then have "2 * 2 ^ k \<le> n" "n < 2 * 2 ^ Suc k" by auto
    then show ?thesis using b k by simp
  qed
qed

lemma binaryExponent_bounds:
  assumes "0 < x"
  shows "pow2 (binaryExponent x) \<le> x" and "x < pow2 (binaryExponent x + 1)"
proof -
  obtain p q where pq: "quotient_of x = (p, q)" by (cases "quotient_of x")
  then have x: "x = of_int p / of_int q" and q: "0 < q"
    by (simp_all add: quotient_of_div quotient_of_denom_pos)
  from assms x q have p: "0 < p" by (simp add: zero_less_divide_iff)
  define bp where "bp = bitLength p"
  define bq where "bq = bitLength q"
  define d where "d = int bp - int bq"
  have bp1: "0 < bp" and bq1: "0 < bq" using p q by (simp_all add: bp_def bq_def bitLength_pos)
  from bitLength_bounds[OF p] have "2 ^ (bp - 1) \<le> p" "p < 2 ^ bp" by (simp_all add: bp_def)
  then have "(of_int (2 ^ (bp - 1)) :: rat) \<le> of_int p" "(of_int p :: rat) < of_int (2 ^ bp)"
    by (simp_all only: of_int_le_iff of_int_less_iff)
  then have P: "pow2 (int bp - 1) \<le> of_int p" "of_int p < pow2 (int bp)"
    using bp1 pow2_nat[of "bp - 1"] pow2_nat[of bp] by (simp_all add: of_nat_diff)
  from bitLength_bounds[OF q] have "2 ^ (bq - 1) \<le> q" "q < 2 ^ bq" by (simp_all add: bq_def)
  then have "(of_int (2 ^ (bq - 1)) :: rat) \<le> of_int q" "(of_int q :: rat) < of_int (2 ^ bq)"
    by (simp_all only: of_int_le_iff of_int_less_iff)
  then have Q: "pow2 (int bq - 1) \<le> of_int q" "of_int q < pow2 (int bq)"
    using bq1 pow2_nat[of "bq - 1"] pow2_nat[of bq] by (simp_all add: of_nat_diff)
  have qpos: "(0 :: rat) < of_int q" using q by simp
  have up: "x < pow2 (d + 1)"
  proof -
    have "x * pow2 (int bq - 1) \<le> x * of_int q"
      using Q(1) assms by (simp add: mult_left_mono)
    also have "\<dots> = of_int p" using x qpos by simp
    also have "\<dots> < pow2 (int bp)" by (rule P(2))
    also have "\<dots> = pow2 (d + 1) * pow2 (int bq - 1)"
      by (simp add: d_def pow2_add[symmetric])
    finally show ?thesis by simp
  qed
  have low: "pow2 (d - 1) < x"
  proof -
    have "pow2 (d - 1) * of_int q < pow2 (d - 1) * pow2 (int bq)"
      using Q(2) by simp
    also have "\<dots> = pow2 (int bp - 1)" by (simp add: d_def pow2_add[symmetric])
    also have "\<dots> \<le> of_int p" by (rule P(1))
    also have "\<dots> = x * of_int q" using x qpos by simp
    finally show ?thesis using qpos by simp
  qed
  have e: "binaryExponent x = (if pow2 d \<le> x then d else d - 1)"
    by (simp add: binaryExponent_def pq d_def bp_def bq_def Let_def)
  show "pow2 (binaryExponent x) \<le> x" using e low by (auto simp: less_imp_le)
  show "x < pow2 (binaryExponent x + 1)" using e up by (auto simp: not_le)
qed

lemma binaryExponent_unique:
  assumes "0 < x" and "pow2 e \<le> x" and "x < pow2 (e + 1)"
  shows "binaryExponent x = e"
proof -
  from binaryExponent_bounds[OF assms(1)] assms(2,3)
  have "pow2 e < pow2 (binaryExponent x + 1)" "pow2 (binaryExponent x) < pow2 (e + 1)"
    by simp_all
  then show ?thesis by (simp add: pow2_less_iff)
qed

lemma roundHalfEven_of_int [simp]: "roundHalfEven (of_int k) = k"
  by (simp add: roundHalfEven_def)

lemma roundHalfEven_floor: "\<lfloor>y\<rfloor> \<le> roundHalfEven y" "roundHalfEven y \<le> \<lfloor>y\<rfloor> + 1"
  by (simp_all add: roundHalfEven_def Let_def)

lemma roundHalfEven_ge:
  assumes "of_int a \<le> y"
  shows "a \<le> roundHalfEven y"
proof -
  have "a \<le> \<lfloor>y\<rfloor>" using assms by (simp add: le_floor_iff)
  with roundHalfEven_floor(1)[of y] show ?thesis by linarith
qed

lemma roundHalfEven_less:
  assumes "y < of_int b - 1 / 2"
  shows "roundHalfEven y < b"
proof (cases "y - of_int \<lfloor>y\<rfloor> < 1 / 2")
  case True
  have "y < of_int b" using assms by linarith
  then have "\<lfloor>y\<rfloor> < b" by (simp add: floor_less_iff)
  with True show ?thesis by (simp add: roundHalfEven_def Let_def)
next
  case False
  with assms have "(of_int \<lfloor>y\<rfloor> :: rat) + 1 < of_int b" by linarith
  then have "(of_int (\<lfloor>y\<rfloor> + 1) :: rat) < of_int b" by simp
  then have "\<lfloor>y\<rfloor> + 1 < b" by (simp only: of_int_less_iff)
  with roundHalfEven_floor(2)[of y] show ?thesis by linarith
qed

lemma roundHalfEven_near: "\<bar>of_int (roundHalfEven y) - y\<bar> \<le> 1 / 2"
proof -
  have "of_int \<lfloor>y\<rfloor> \<le> y" "y < of_int \<lfloor>y\<rfloor> + 1" by linarith+
  then show ?thesis by (auto simp: roundHalfEven_def Let_def abs_le_iff)
qed

lemma pow2_nonzero [simp]: "pow2 k \<noteq> 0"
  by (simp add: pow2_def)

lemma pow2_0 [simp]: "pow2 0 = 1"
  by (simp add: pow2_def)

lemma ulp_pos [simp]: "0 < ulp x"
  by (simp add: ulp_def)

lemma ulp_nonzero [simp]: "ulp x \<noteq> 0"
  by (simp add: ulp_def)

lemma binaryExponent_less: "0 < x \<Longrightarrow> x < pow2 b \<Longrightarrow> binaryExponent x < b"
  using binaryExponent_bounds(1)[of x] pow2_less_iff[of "binaryExponent x" b] by simp

lemma binaryExponent_ge: "0 < x \<Longrightarrow> pow2 a \<le> x \<Longrightarrow> a \<le> binaryExponent x"
  using binaryExponent_bounds(2)[of x] pow2_less_iff[of a "binaryExponent x + 1"] by simp

lemma numberValue_exact:
  assumes "x / ulp x \<in> \<int>" and "\<bar>x\<bar> < pow2 1024"
  shows "numberValue x = Finite x"
proof -
  from assms(1) obtain k where k: "x / ulp x = of_int k" by (auto elim: Ints_cases)
  have x: "of_int k * ulp x = x" using k by (simp add: divide_eq_eq)
  have "of_int (roundHalfEven (x / ulp x)) * ulp x = x"
    by (simp only: k roundHalfEven_of_int x)
  with assms(2) show ?thesis by (simp add: numberValue_def Let_def not_le)
qed

text \<open>Below \<open>2 ^ 52\<close> the doubles are spaced by a half or less.\<close>

lemma ulp_small:
  assumes "x \<noteq> 0" and "\<bar>x\<bar> < 2 ^ 52"
  obtains t where "ulp x = 1 / (2 * 2 ^ t)"
proof -
  define e where "e = max (binaryExponent \<bar>x\<bar>) (- 1022)"
  have "\<bar>x\<bar> < pow2 52" using assms(2) by (simp add: pow2_def)
  with assms(1) have "binaryExponent \<bar>x\<bar> < 52" by (simp add: binaryExponent_less)
  then have e: "e \<le> 51" by (simp add: e_def)
  define t where "t = nat (51 - e)"
  have "pow2 (e - 52) * pow2 (int (Suc t)) = pow2 0"
    using e by (simp add: pow2_add[symmetric] t_def)
  moreover have "pow2 (int (Suc t)) = 2 * 2 ^ t" by (simp only: pow2_nat power_Suc)
  moreover have "ulp x = pow2 (e - 52)" by (simp add: ulp_def e_def)
  ultimately have "ulp x * (2 * 2 ^ t) = 1" by simp
  then have "ulp x = 1 / (2 * 2 ^ t)" by (simp add: eq_divide_eq)
  then show ?thesis by (rule that)
qed

lemma numberValue_half:
  assumes "2 * x \<in> \<int>" and "\<bar>x\<bar> < 2 ^ 52"
  shows "numberValue x = Finite x"
proof (cases "x = 0")
  case True
  then show ?thesis by (simp add: numberValue_def)
next
  case False
  from ulp_small[OF False assms(2)] obtain t where t: "ulp x = 1 / (2 * 2 ^ t)" by blast
  then have "x / ulp x = (2 * x) * 2 ^ t" by simp
  moreover have "(2 * x) * 2 ^ t \<in> \<int>" by (rule Ints_mult[OF assms(1)]) simp
  ultimately have "x / ulp x \<in> \<int>" by simp
  moreover have "\<bar>x\<bar> < pow2 1024"
  proof -
    have "\<bar>x\<bar> < pow2 52" using assms(2) by (simp add: pow2_def)
    also have "\<dots> \<le> pow2 1024" by (rule pow2_mono) simp
    finally show ?thesis .
  qed
  ultimately show ?thesis by (rule numberValue_exact)
qed

lemma numberValue_int:
  assumes "\<bar>k\<bar> \<le> 2 ^ 53"
  shows "numberValue (of_int k) = Finite (of_int k)"
proof (cases "\<bar>k\<bar> < 2 ^ 52")
  case True
  then have "\<bar>of_int k :: rat\<bar> < of_int (2 ^ 52)"
    by (simp only: of_int_abs[symmetric] of_int_less_iff)
  then show ?thesis by (intro numberValue_half) simp_all
next
  case False
  let ?x = "of_int k :: rat"
  from False have lo: "(of_int (2 ^ 52) :: rat) \<le> \<bar>?x\<bar>"
    by (simp only: of_int_abs[symmetric] of_int_le_iff)
  from assms have hi: "\<bar>?x\<bar> \<le> (of_int (2 ^ 53) :: rat)"
    by (simp only: of_int_abs[symmetric] of_int_le_iff)
  from lo have pos: "0 < \<bar>?x\<bar>" by simp
  have "pow2 52 \<le> \<bar>?x\<bar>" using lo by (simp add: pow2_def)
  then have ge: "52 \<le> binaryExponent \<bar>?x\<bar>" by (rule binaryExponent_ge[OF pos])
  have "\<bar>?x\<bar> < pow2 54" using hi by (simp add: pow2_def)
  then have "binaryExponent \<bar>?x\<bar> < 54" by (rule binaryExponent_less[OF pos])
  with ge consider "binaryExponent \<bar>?x\<bar> = 52" | "binaryExponent \<bar>?x\<bar> = 53" by linarith
  then have "?x / ulp ?x \<in> \<int>"
  proof cases
    case 1
    then show ?thesis by (simp add: ulp_def pow2_def)
  next
    case 2
    with binaryExponent_bounds(1)[OF pos] have "pow2 53 \<le> \<bar>?x\<bar>" by simp
    with hi have "\<bar>?x\<bar> = of_int (2 ^ 53)" by (simp add: pow2_def)
    then have "\<bar>k\<bar> = 2 ^ 53" by (simp only: of_int_abs[symmetric] of_int_eq_iff)
    then have "k = 2 ^ 53 \<or> k = - (2 ^ 53)" by linarith
    then show ?thesis using 2 by (auto simp: ulp_def pow2_def)
  qed
  moreover have "\<bar>?x\<bar> < pow2 1024"
  proof -
    have "\<bar>?x\<bar> < pow2 54" using hi by (simp add: pow2_def)
    also have "\<dots> \<le> pow2 1024" by (rule pow2_mono) simp
    finally show ?thesis .
  qed
  ultimately show ?thesis by (rule numberValue_exact)
qed

text \<open>
  Rounding a quotient to a double does not move it across a half, as long as the dividend
  stays below \<open>2 ^ 52\<close>: the bounds \<open>m - 1/2\<close> and \<open>m + 1/2\<close> are doubles, and the quotient is
  further from the upper one than half the distance between doubles.
\<close>

lemma mathRound_numberValue_div:
  fixes s :: int and n :: nat
  assumes n: "0 < n" and s: "\<bar>s\<bar> < 2 ^ 52"
  shows "mathRound (numberValue (of_int s / of_nat n))
           = Finite (of_int \<lfloor>(of_int s / of_nat n :: rat) + 1 / 2\<rfloor>)"
proof (cases "s = 0")
  case True
  have "\<lfloor>1 / 2 :: rat\<rfloor> = 0" by (rule floor_unique) simp_all
  with True show ?thesis by (simp add: numberValue_def)
next
  case False
  define x where "x = (of_int s / of_nat n :: rat)"
  define m where "m = \<lfloor>x + 1 / 2\<rfloor>"
  have npos: "(0 :: rat) < of_nat n" using n by simp
  have n1: "(1 :: rat) \<le> of_nat n" using n by (simp add: Suc_le_eq)
  have x0: "x \<noteq> 0" using False n by (simp add: x_def)
  have xs: "\<bar>x\<bar> * of_nat n = \<bar>of_int s\<bar>" using npos by (simp add: x_def abs_divide)
  have sb: "\<bar>of_int s :: rat\<bar> < 2 ^ 52"
  proof -
    from s have "\<bar>of_int s :: rat\<bar> < of_int (2 ^ 52)"
      by (simp only: of_int_abs[symmetric] of_int_less_iff)
    then show ?thesis by simp
  qed
  have "\<bar>x\<bar> * 1 \<le> \<bar>x\<bar> * of_nat n" by (rule mult_left_mono[OF n1]) simp
  with xs sb have xb: "\<bar>x\<bar> < 2 ^ 52" by simp
  from ulp_small[OF x0 xb] obtain t where u: "ulp x = 1 / (2 * 2 ^ t)" by blast
  define C :: int where "C = 2 * 2 ^ t"
  have Cpos: "(0 :: rat) < of_int C" by (simp add: C_def)
  have uC: "ulp x = 1 / of_int C" by (simp add: u C_def)
  have xu: "x / ulp x = x * of_int C" by (simp add: uC)
  have m1: "of_int m \<le> x + 1 / 2" by (simp add: m_def)
  have m2: "x + 1 / 2 < of_int m + 1" unfolding m_def by linarith
  define R where "R = roundHalfEven (x / ulp x)"
  define y where "y = of_int R * ulp x"
  have yC: "y * of_int C = of_int R" using Cpos by (simp add: y_def uC)
  define a where "a = (2 * m - 1) * 2 ^ t"
  have a: "of_int a = (of_int m - 1 / 2) * (of_int C :: rat)"
    by (simp add: a_def C_def algebra_simps)
  have "(of_int m - 1 / 2) * of_int C \<le> x * of_int C"
    using m1 Cpos by (intro mult_right_mono) simp_all
  then have "a \<le> R" unfolding R_def xu by (intro roundHalfEven_ge) (simp add: a)
  then have "(of_int a :: rat) \<le> of_int R" by (simp only: of_int_le_iff)
  then have "(of_int m - 1 / 2) * of_int C \<le> y * of_int C" by (simp only: a yC)
  then have low: "of_int m - 1 / 2 \<le> y" using Cpos by (simp only: mult_le_cancel_right_pos)
  define b where "b = (2 * m + 1) * 2 ^ t"
  have b: "of_int b = (of_int m + 1 / 2) * (of_int C :: rat)"
    by (simp add: b_def C_def algebra_simps)
  have gap: "x < of_int m + 1 / 2 - ulp x / 2"
  proof (cases "- 1022 \<le> binaryExponent \<bar>x\<bar>")
    case True
    then have "ulp x = pow2 (binaryExponent \<bar>x\<bar> - 52)" by (simp add: ulp_def max_def)
    also have "\<dots> = pow2 (binaryExponent \<bar>x\<bar>) / 2 ^ 52"
      using pow2_nat[of 52] by (simp add: pow2_diff)
    also have "\<dots> \<le> \<bar>x\<bar> / 2 ^ 52"
      using binaryExponent_bounds(1)[of "\<bar>x\<bar>"] x0 by (simp add: divide_right_mono)
    finally have "ulp x * of_nat n \<le> \<bar>x\<bar> / 2 ^ 52 * of_nat n"
      using npos by (simp only: mult_le_cancel_right_pos)
    also have "\<dots> = \<bar>of_int s\<bar> / 2 ^ 52" using xs by simp
    also have "\<dots> < 1" using sb by simp
    finally have un: "ulp x * of_nat n < 1" .
    define g where "g = (2 * m + 1) * int n - 2 * s"
    have g: "(of_int m + 1 / 2 - x) * (2 * of_nat n) = of_int g"
      using npos by (simp add: g_def x_def algebra_simps)
    have "0 < (of_int m + 1 / 2 - x) * (2 * of_nat n)" using m2 npos by simp
    then have "(0 :: rat) < of_int g" by (simp only: g)
    then have "0 < g" by simp
    then have "1 \<le> g" by simp
    then have "(1 :: rat) \<le> of_int g" by simp
    then have "1 \<le> (of_int m + 1 / 2 - x) * (2 * of_nat n)" by (simp only: g)
    with un have "ulp x * of_nat n < (of_int m + 1 / 2 - x) * (2 * of_nat n)" by linarith
    then have "ulp x * of_nat n < (2 * (of_int m + 1 / 2 - x)) * of_nat n"
      by (simp add: algebra_simps)
    then have "ulp x < 2 * (of_int m + 1 / 2 - x)"
      using npos by (simp only: mult_less_cancel_right_pos)
    then show ?thesis by simp
  next
    case False
    then have ux: "ulp x = pow2 (- 1074)" by (simp add: ulp_def max_def)
    have "pow2 (- 1074) \<le> pow2 (- 2)" by (rule pow2_mono) simp
    then have u4: "ulp x \<le> 1 / 4" by (simp add: ux pow2_def)
    from False have "binaryExponent \<bar>x\<bar> + 1 \<le> - 2" by simp
    then have "pow2 (binaryExponent \<bar>x\<bar> + 1) \<le> pow2 (- 2)" by (rule pow2_mono)
    with binaryExponent_bounds(2)[of "\<bar>x\<bar>"] x0 have x4: "\<bar>x\<bar> < 1 / 4"
      by (simp add: pow2_def)
    have "m = 0" unfolding m_def using x4 by (intro floor_unique) (simp_all add: abs_less_iff)
    with x4 u4 show ?thesis by (simp add: abs_less_iff)
  qed
  have "x * of_int C < (of_int m + 1 / 2 - ulp x / 2) * of_int C"
    using gap Cpos by (simp only: mult_less_cancel_right_pos)
  also have "\<dots> = of_int b - 1 / 2" using Cpos by (simp add: b uC algebra_simps)
  finally have "R < b" unfolding R_def xu by (rule roundHalfEven_less)
  then have "R + 1 \<le> b" by simp
  then have "(of_int (R + 1) :: rat) \<le> of_int b" by (simp only: of_int_le_iff)
  then have "y * of_int C + 1 \<le> (of_int m + 1 / 2) * of_int C" by (simp add: yC b)
  then have "y * of_int C < (of_int m + 1 / 2) * of_int C" by simp
  then have up: "y < of_int m + 1 / 2" using Cpos by (simp only: mult_less_cancel_right_pos)
  have fl: "\<lfloor>y + 1 / 2\<rfloor> = m" using low up by (intro floor_unique) simp_all
  have "\<bar>y\<bar> < pow2 1024"
  proof -
    have "\<bar>y\<bar> \<le> \<bar>x\<bar> + 1" using low up m1 m2 by (simp add: abs_le_iff abs_if) 
    also have "\<dots> < 2 ^ 52 + 1" using xb by simp
    also have "\<dots> \<le> pow2 53" by (simp add: pow2_def)
    also have "\<dots> \<le> pow2 1024" by (rule pow2_mono) simp
    finally show ?thesis .
  qed
  then have "numberValue x = Finite y"
    using x0 by (simp add: numberValue_def Let_def y_def R_def not_le)
  then show ?thesis by (simp add: x_def[symmetric] fl m_def[symmetric])
qed


subsection \<open>Values that are doubles\<close>

lemma numberValue_0: "numberValue 0 = Finite 0"
  by (simp add: numberValue_def)

lemma numberValue_1: "numberValue 1 = Finite 1"
  using numberValue_int[of 1] by simp

lemma numberValue_numeral:
  "(numeral w :: int) \<le> 9007199254740992 \<Longrightarrow> numberValue (numeral w) = Finite (numeral w)"
  using numberValue_int[of "numeral w"] by simp

lemma numberValue_half_numeral:
  assumes "(numeral w :: int) < 9007199254740992"
  shows "numberValue (numeral w / 2) = Finite (numeral w / 2)"
proof -
  from assms have "(of_int (numeral w) :: rat) < of_int 9007199254740992"
    by (simp only: of_int_less_iff)
  then have small: "\<bar>numeral w / 2 :: rat\<bar> < 2 ^ 52" by simp
  have "2 * (x / 2) = x" for x :: rat by simp
  then have "2 * (numeral w / 2 :: rat) \<in> \<int>" by (simp only: Ints_numeral)
  then show ?thesis using small by (rule numberValue_half)
qed

lemmas runNumbers = numberValue_0 numberValue_1 numberValue_numeral numberValue_half_numeral

text \<open>The integer after \<open>2 ^ 53\<close> is not a double; it lies half-way between two of them.\<close>

lemma floor_half_2_53: "\<lfloor>9007199254740993 / 2 :: rat\<rfloor> = 4503599627370496"
  by (rule floor_unique) simp_all

lemma numberValue_after_2_53: "numberValue 9007199254740993 = Finite 9007199254740992"
proof -
  have e: "binaryExponent 9007199254740993 = 53"
    by (rule binaryExponent_unique) (simp_all add: pow2_def)
  have u: "ulp 9007199254740993 = 2" by (simp add: ulp_def e pow2_def)
  have r: "roundHalfEven (9007199254740993 / 2) = 4503599627370496"
    by (simp add: roundHalfEven_def floor_half_2_53 Let_def)
  show ?thesis by (simp add: numberValue_def u r Let_def pow2_def)
qed

text \<open>A fifth of an integer below \<open>2 ^ 53\<close> that is rounded up to a half.\<close>

lemma floor_fifth: "\<lfloor>22517998136852488 / 5 :: rat\<rfloor> = 4503599627370497"
  by (rule floor_unique) simp_all

lemma numberValue_fifth: "numberValue (5629499534213122 / 5) = Finite (2251799813685249 / 2)"
proof -
  have e: "binaryExponent (5629499534213122 / 5) = 50"
    by (rule binaryExponent_unique) (simp_all add: pow2_def)
  have u: "ulp (5629499534213122 / 5) = 1 / 4" by (simp add: ulp_def e pow2_def)
  have r: "roundHalfEven (22517998136852488 / 5) = 4503599627370498"
    by (simp add: roundHalfEven_def floor_fifth Let_def)
  show ?thesis by (simp add: numberValue_def u r Let_def pow2_def)
qed

section \<open>The overall score\<close>

lemmas runAnalyze = analyzeCoverage_def analyzeCoverageTry_def callGroq_def completionEnv_def
  trim_def parseSubtopic_def newRegExp_def scorePattern_def captureText_def parseInt_def
  radixValue_def successReport_def overallOf_def failureReport_def failedResult_def
  digitChar_def showNat.simps runCompiler runMatcher runNumbers

text \<open>As long as the magnitudes of the scores add up to less than \<open>2 ^ 52\<close>, every sum is exact.\<close>

lemma sum_list_abs_nonneg: "0 \<le> sum_list (map abs (ks :: int list))"
  by (induction ks) simp_all

lemma foldl_numAdd_integers:
  assumes "map coverageScore analysis = map (\<lambda>k. Finite (of_int k)) ks"
      and "\<bar>a\<bar> + sum_list (map abs ks) < 2 ^ 52"
  shows "foldl (\<lambda>sum s. numAdd sum (coverageScore s)) (Finite (of_int a)) analysis
           = Finite (of_int (a + sum_list ks))"
  using assms
proof (induction analysis arbitrary: a ks)
  case Nil
  then show ?case by simp
next
  case (Cons s analysis)
  from Cons.prems(1) obtain k ks' where ks: "ks = k # ks'"
      and s: "coverageScore s = Finite (of_int k)"
      and rest: "map coverageScore analysis = map (\<lambda>k. Finite (of_int k)) ks'"
    by (cases ks) auto
  have bound: "\<bar>a + k\<bar> + sum_list (map abs ks') < 2 ^ 52"
    using Cons.prems(2) ks by simp
  with sum_list_abs_nonneg[of ks'] have "\<bar>a + k\<bar> \<le> 2 ^ 53" by simp
  then have "numberValue (of_int (a + k)) = Finite (of_int (a + k))" by (rule numberValue_int)
  then have "numAdd (Finite (of_int a)) (coverageScore s) = Finite (of_int (a + k))"
    by (simp add: s)
  with Cons.IH[OF rest bound] show ?case by (simp add: ks add.assoc)
qed

lemma overallOf_integers:
  assumes "map coverageScore analysis = map (\<lambda>k. Finite (of_int k)) ks" and "ks \<noteq> []"
      and "sum_list (map abs ks) < 2 ^ 52"
  shows "overallOf analysis
           = Finite (of_int \<lfloor>(of_int (sum_list ks) / of_nat (length ks) :: rat) + 1 / 2\<rfloor>)"
proof -
  have len: "length analysis = length ks"
    using assms(1) by (metis length_map)
  have "foldl (\<lambda>sum s. numAdd sum (coverageScore s)) (Finite (of_int 0)) analysis
          = Finite (of_int (0 + sum_list ks))"
    by (rule foldl_numAdd_integers[OF assms(1)]) (use assms(3) in simp)
  then have sum: "foldl (\<lambda>sum s. numAdd sum (coverageScore s)) (Finite 0) analysis
          = Finite (of_int (sum_list ks))"
    by simp
  have pos: "0 < length ks" using assms(2) by simp
  have "\<bar>sum_list ks\<bar> \<le> sum_list (map abs ks)" by (rule sum_list_abs)
  with assms(3) have "\<bar>sum_list ks\<bar> < 2 ^ 52" by simp
  from mathRound_numberValue_div[OF pos this] pos show ?thesis
    by (simp add: overallOf_def len sum)
qed

text \<open>Whatever the scores are, an overall score that is finite is an integer.\<close>

lemma overallOf_Finite_integer: "overallOf analysis = Finite x \<Longrightarrow> isInteger (Finite x)"
proof -
  assume h: "overallOf analysis = Finite x"
  obtain y where "numDivNat (foldl (\<lambda>sum s. numAdd sum (coverageScore s)) (Finite 0) analysis)
                    (length analysis) = Finite y"
    using h by (cases "numDivNat (foldl (\<lambda>sum s. numAdd sum (coverageScore s)) (Finite 0) analysis)
                    (length analysis)") (simp_all add: overallOf_def)
  with h have "x = of_int \<lfloor>y + 1 / 2\<rfloor>" by (simp add: overallOf_def)
  then show ?thesis by (simp add: isInteger_def)
qed

lemma successReport_overall:
  assumes "analyzeCoverageTry e transcript subtopics topicText = Inr report"
  shows "overallScore report = overallOf (subtopicAnalysis report)"
    and "analyzeCoverage e transcript subtopics topicText = report"
proof -
  from assms obtain analysis where "report = successReport subtopics analysis"
    by (auto simp: analyzeCoverageTry_def split: sum.splits)
  then show "overallScore report = overallOf (subtopicAnalysis report)"
    by (simp add: successReport_def)
  show "analyzeCoverage e transcript subtopics topicText = report"
    using assms by (simp add: analyzeCoverage_def)
qed

text \<open>Runs of the success path, used as concrete inputs below.\<close>

lemma analyzeCoverageTry_33_34:
  "analyzeCoverageTry (completionEnv (Inr ''A\<newline>Score: 33\<newline>B\<newline>Score: 34'')) ''t'' [''A'', ''B''] ''Python''
     = Inr \<lparr> overallScore = Finite 34,
             subtopicAnalysis =
               [\<lparr> subtopic = ''A'', coverageScore = Finite 33, covered = False,
                  evidence = ''Evidence found in transcript.'' \<rparr>,
                \<lparr> subtopic = ''B'', coverageScore = Finite 34, covered = False,
                  evidence = ''Evidence found in transcript.'' \<rparr>],
             summary = ''Overall coverage based on 2 subtopics.'' \<rparr>"
  by (simp add: runAnalyze)

lemma floor_101_half: "\<lfloor>(101 / 2 :: rat)\<rfloor> = 50"
  by (rule floor_unique) simp_all

lemma analyzeCoverageTry_0_100_50:
  "analyzeCoverageTry (completionEnv (Inr ''Y Score: 100 Z Score: 50'')) ''t'' [''X'', ''Y'', ''Z''] ''Python''
     = Inr \<lparr> overallScore = Finite 50,
             subtopicAnalysis =
               [\<lparr> subtopic = ''X'', coverageScore = Finite 0, covered = False,
                  evidence = ''No evidence found.'' \<rparr>,
                \<lparr> subtopic = ''Y'', coverageScore = Finite 100, covered = True,
                  evidence = ''Evidence found in transcript.'' \<rparr>,
                \<lparr> subtopic = ''Z'', coverageScore = Finite 50, covered = True,
                  evidence = ''Evidence found in transcript.'' \<rparr>],
             summary = ''Overall coverage based on 3 subtopics.'' \<rparr>"
  by (simp add: runAnalyze floor_101_half)

lemma analyzeCoverageTry_large:
  "analyzeCoverageTry (completionEnv (Inr ''A Score: 9007199254740992 B Score: 1'')) ''t''
       [''A'', ''B''] ''Python''
     = Inr \<lparr> overallScore = Finite 4503599627370496,
             subtopicAnalysis =
               [\<lparr> subtopic = ''A'', coverageScore = Finite 9007199254740992, covered = True,
                  evidence = ''Evidence found in transcript.'' \<rparr>,
                \<lparr> subtopic = ''B'', coverageScore = Finite 1, covered = False,
                  evidence = ''Evidence found in transcript.'' \<rparr>],
             summary = ''Overall coverage based on 2 subtopics.'' \<rparr>"
  by (simp add: runAnalyze numberValue_after_2_53 floor_half_2_53)

lemma analyzeCoverageTry_fifth:
  "analyzeCoverageTry
       (completionEnv (Inr ''T1 Score: 5629499534213122 T2 Score: 0 T3 Score: 0 T4 Score: 0 T5 Score: 0''))
       ''t'' [''T1'', ''T2'', ''T3'', ''T4'', ''T5''] ''Python''
     = Inr \<lparr> overallScore = Finite 1125899906842625,
             subtopicAnalysis =
               [\<lparr> subtopic = ''T1'', coverageScore = Finite 5629499534213122, covered = True,
                  evidence = ''Evidence found in transcript.'' \<rparr>,
                \<lparr> subtopic = ''T2'', coverageScore = Finite 0, covered = False,
                  evidence = ''Evidence found in transcript.'' \<rparr>,
                \<lparr> subtopic = ''T3'', coverageScore = Finite 0, covered = False,
                  evidence = ''Evidence found in transcript.'' \<rparr>,
                \<lparr> subtopic = ''T4'', coverageScore = Finite 0, covered = False,
                  evidence = ''Evidence found in transcript.'' \<rparr>,
                \<lparr> subtopic = ''T5'', coverageScore = Finite 0, covered = False,
                  evidence = ''Evidence found in transcript.'' \<rparr>],
             summary = ''Overall coverage based on 5 subtopics.'' \<rparr>"
  by (simp add: runAnalyze numberValue_fifth)

text \<open>
  C4, as the code has it. The claim as stated fails where the arithmetic of doubles is not
  exact, which the scores can reach because they are not clamped. For the scores \<open>2 ^ 53\<close>
  and 1 the sum \<open>2 ^ 53 + 1\<close> is not a double and is rounded to \<open>2 ^ 53\<close>: the overall
  score is \<open>2 ^ 52\<close>, while the mean \<open>2 ^ 52 + 1/2\<close> with its half going up gives
  \<open>2 ^ 52 + 1\<close>. For the scores \<open>5 * 2 ^ 50 + 2\<close>, 0, 0, 0 and 0 every score and every sum
  is a double, but the mean \<open>2 ^ 50 + 2/5\<close> is not: the nearest double is \<open>2 ^ 50 + 1/2\<close>,
  and the overall score is \<open>2 ^ 50 + 1\<close> and not \<open>2 ^ 50\<close>.
\<close>

theorem overallScore_large_scores_counterexample:
  "analyzeCoverageTry (completionEnv (Inr ''A Score: 9007199254740992 B Score: 1'')) ''t''
       [''A'', ''B''] ''Python''
     = Inr \<lparr> overallScore = Finite 4503599627370496,
             subtopicAnalysis =
               [\<lparr> subtopic = ''A'', coverageScore = Finite 9007199254740992, covered = True,
                  evidence = ''Evidence found in transcript.'' \<rparr>,
                \<lparr> subtopic = ''B'', coverageScore = Finite 1, covered = False,
                  evidence = ''Evidence found in transcript.'' \<rparr>],
             summary = ''Overall coverage based on 2 subtopics.'' \<rparr>
   \<and> overallScore (analyzeCoverage
         (completionEnv (Inr ''A Score: 9007199254740992 B Score: 1'')) ''t'' [''A'', ''B''] ''Python'')
       = Finite 4503599627370496
   \<and> \<not> (\<exists>m. overallScore (analyzeCoverage
               (completionEnv (Inr ''A Score: 9007199254740992 B Score: 1'')) ''t'' [''A'', ''B''] ''Python'')
               = Finite (of_int m)
           \<and> of_int m - 1 / 2
               \<le> (of_int (sum_list [9007199254740992, 1])
                    / of_nat (length [9007199254740992, 1 :: int]) :: rat)
           \<and> (of_int (sum_list [9007199254740992, 1])
                / of_nat (length [9007199254740992, 1 :: int]) :: rat)
               < of_int m + 1 / 2)
   \<and> map coverageScore (subtopicAnalysis (analyzeCoverage
         (completionEnv (Inr ''T1 Score: 5629499534213122 T2 Score: 0 T3 Score: 0 T4 Score: 0 T5 Score: 0''))
         ''t'' [''T1'', ''T2'', ''T3'', ''T4'', ''T5''] ''Python''))
       = map (\<lambda>k. Finite (of_int k)) [5629499534213122, 0, 0, 0, 0]
   \<and> overallScore (analyzeCoverage
         (completionEnv (Inr ''T1 Score: 5629499534213122 T2 Score: 0 T3 Score: 0 T4 Score: 0 T5 Score: 0''))
         ''t'' [''T1'', ''T2'', ''T3'', ''T4'', ''T5''] ''Python'')
       = Finite 1125899906842625
   \<and> \<not> (\<exists>m. overallScore (analyzeCoverage
               (completionEnv (Inr ''T1 Score: 5629499534213122 T2 Score: 0 T3 Score: 0 T4 Score: 0 T5 Score: 0''))
               ''t'' [''T1'', ''T2'', ''T3'', ''T4'', ''T5''] ''Python'')
               = Finite (of_int m)
           \<and> of_int m - 1 / 2
               \<le> (of_int (sum_list [5629499534213122, 0, 0, 0, 0])
                    / of_nat (length [5629499534213122, 0, 0, 0, 0 :: int]) :: rat)
           \<and> (of_int (sum_list [5629499534213122, 0, 0, 0, 0])
                / of_nat (length [5629499534213122, 0, 0, 0, 0 :: int]) :: rat)
               < of_int m + 1 / 2)"
proof -
  let ?first = "analyzeCoverage
      (completionEnv (Inr ''A Score: 9007199254740992 B Score: 1'')) ''t'' [''A'', ''B''] ''Python''"
  let ?second = "analyzeCoverage
      (completionEnv (Inr ''T1 Score: 5629499534213122 T2 Score: 0 T3 Score: 0 T4 Score: 0 T5 Score: 0''))
      ''t'' [''T1'', ''T2'', ''T3'', ''T4'', ''T5''] ''Python''"
  have o1: "overallScore ?first = Finite 4503599627370496"
    using successReport_overall(2)[OF analyzeCoverageTry_large] by simp
  have n1: "\<not> (\<exists>m. overallScore ?first = Finite (of_int m)
           \<and> of_int m - 1 / 2
               \<le> (of_int (sum_list [9007199254740992, 1])
                    / of_nat (length [9007199254740992, 1 :: int]) :: rat)
           \<and> (of_int (sum_list [9007199254740992, 1])
                / of_nat (length [9007199254740992, 1 :: int]) :: rat)
               < of_int m + 1 / 2)"
  proof
    assume "\<exists>m. overallScore ?first = Finite (of_int m)
           \<and> of_int m - 1 / 2
               \<le> (of_int (sum_list [9007199254740992, 1])
                    / of_nat (length [9007199254740992, 1 :: int]) :: rat)
           \<and> (of_int (sum_list [9007199254740992, 1])
                / of_nat (length [9007199254740992, 1 :: int]) :: rat)
               < of_int m + 1 / 2"
    then obtain m :: int where m: "Finite 4503599627370496 = Finite (of_int m)"
        and less: "(of_int (sum_list [9007199254740992, 1])
                / of_nat (length [9007199254740992, 1 :: int]) :: rat) < of_int m + 1 / 2"
      unfolding o1 by blast
    from m have "(of_int m :: rat) = 4503599627370496" by simp
    with less show False by simp
  qed
  have s2: "map coverageScore (subtopicAnalysis ?second)
       = map (\<lambda>k. Finite (of_int k)) [5629499534213122, 0, 0, 0, 0]"
    using successReport_overall(2)[OF analyzeCoverageTry_fifth] by simp
  have o2: "overallScore ?second = Finite 1125899906842625"
    using successReport_overall(2)[OF analyzeCoverageTry_fifth] by simp
  have n2: "\<not> (\<exists>m. overallScore ?second = Finite (of_int m)
           \<and> of_int m - 1 / 2
               \<le> (of_int (sum_list [5629499534213122, 0, 0, 0, 0])
                    / of_nat (length [5629499534213122, 0, 0, 0, 0 :: int]) :: rat)
           \<and> (of_int (sum_list [5629499534213122, 0, 0, 0, 0])
                / of_nat (length [5629499534213122, 0, 0, 0, 0 :: int]) :: rat)
               < of_int m + 1 / 2)"
  proof
    assume "\<exists>m. overallScore ?second = Finite (of_int m)
           \<and> of_int m - 1 / 2
               \<le> (of_int (sum_list [5629499534213122, 0, 0, 0, 0])
                    / of_nat (length [5629499534213122, 0, 0, 0, 0 :: int]) :: rat)
           \<and> (of_int (sum_list [5629499534213122, 0, 0, 0, 0])
                / of_nat (length [5629499534213122, 0, 0, 0, 0 :: int]) :: rat)
               < of_int m + 1 / 2"
    then obtain m :: int where m: "Finite 1125899906842625 = Finite (of_int m)"
        and le: "of_int m - 1 / 2
               \<le> (of_int (sum_list [5629499534213122, 0, 0, 0, 0])
                    / of_nat (length [5629499534213122, 0, 0, 0, 0 :: int]) :: rat)"
      unfolding o2 by blast
    from m have "(of_int m :: rat) = 1125899906842625" by simp
    with le show False by simp
  qed
  from analyzeCoverageTry_large o1 n1 s2 o2 n2 show ?thesis by (intro conjI)
qed

text \<open>
  C4, amended. On the success path, when the per-subtopic scores are the integers \<open>ks\<close> and
  their magnitudes add up to less than \<open>2 ^ 52\<close>, the overall score is the integer \<open>m\<close>
  nearest to their mean, the half going up: \<open>m - 1/2 \<le> mean < m + 1/2\<close>. The witness
  derives from it the two values of the claim: 34 for the scores 33 and 34, and 50 for the
  scores 0, 100 and 50.
\<close>

theorem overallScore_rounds_mean_half_up:
  assumes "analyzeCoverageTry e transcript subtopics topicText = Inr report"
      and "map coverageScore (subtopicAnalysis report) = map (\<lambda>k. Finite (of_int k)) ks"
      and "ks \<noteq> []"
      and "sum_list (map abs ks) < 2 ^ 52"
  shows "\<exists>m. overallScore (analyzeCoverage e transcript subtopics topicText) = Finite (of_int m)
           \<and> of_int m - 1 / 2 \<le> (of_int (sum_list ks) / of_nat (length ks) :: rat)
           \<and> (of_int (sum_list ks) / of_nat (length ks) :: rat) < of_int m + 1 / 2"
proof -
  let ?mean = "(of_int (sum_list ks) / of_nat (length ks) :: rat)"
  let ?m = "\<lfloor>?mean + 1 / 2\<rfloor>"
  have "overallScore (analyzeCoverage e transcript subtopics topicText) = Finite (of_int ?m)"
    using successReport_overall[OF assms(1)] overallOf_integers[OF assms(2,3,4)] by simp
  moreover have "of_int ?m \<le> ?mean + 1 / 2" by (rule of_int_floor_le)
  moreover have "?mean + 1 / 2 < of_int ?m + 1"
    using floor_correct[of "?mean + 1 / 2"] by simp
  ultimately show ?thesis by (intro exI[of _ ?m]) (simp add: algebra_simps)
qed

theorem overallScore_rounds_mean_half_up_witness:
  "overallScore (analyzeCoverage
       (completionEnv (Inr ''A\<newline>Score: 33\<newline>B\<newline>Score: 34'')) ''t'' [''A'', ''B''] ''Python'') = Finite 34
   \<and> overallScore (analyzeCoverage
       (completionEnv (Inr ''Y Score: 100 Z Score: 50'')) ''t'' [''X'', ''Y'', ''Z''] ''Python'') = Finite 50"
proof -
  have "\<exists>m. overallScore (analyzeCoverage
           (completionEnv (Inr ''A\<newline>Score: 33\<newline>B\<newline>Score: 34'')) ''t'' [''A'', ''B''] ''Python'')
             = Finite (of_int m)
         \<and> of_int m - 1 / 2 \<le> (of_int (sum_list [33, 34]) / of_nat (length [33, 34 :: int]) :: rat)
         \<and> (of_int (sum_list [33, 34]) / of_nat (length [33, 34 :: int]) :: rat) < of_int m + 1 / 2"
    by (rule overallScore_rounds_mean_half_up[OF analyzeCoverageTry_33_34]) simp_all
  then obtain m :: int where m: "overallScore (analyzeCoverage
           (completionEnv (Inr ''A\<newline>Score: 33\<newline>B\<newline>Score: 34'')) ''t'' [''A'', ''B''] ''Python'')
             = Finite (of_int m)"
      and "(of_int m :: rat) - 1 / 2 \<le> 67 / 2" and "(67 / 2 :: rat) < of_int m + 1 / 2"
    by auto
  then have "(of_int m :: rat) \<le> of_int 34" and "(of_int 33 :: rat) < of_int m" by simp_all
  then have "m \<le> 34" and "33 < m" by (simp_all only: of_int_le_iff of_int_less_iff)
  then have m34: "m = 34" by simp
  have "\<exists>m. overallScore (analyzeCoverage
           (completionEnv (Inr ''Y Score: 100 Z Score: 50'')) ''t'' [''X'', ''Y'', ''Z''] ''Python'')
             = Finite (of_int m)
         \<and> of_int m - 1 / 2
             \<le> (of_int (sum_list [0, 100, 50]) / of_nat (length [0, 100, 50 :: int]) :: rat)
         \<and> (of_int (sum_list [0, 100, 50]) / of_nat (length [0, 100, 50 :: int]) :: rat)
             < of_int m + 1 / 2"
    by (rule overallScore_rounds_mean_half_up[OF analyzeCoverageTry_0_100_50]) simp_all
  then obtain n :: int where n: "overallScore (analyzeCoverage
           (completionEnv (Inr ''Y Score: 100 Z Score: 50'')) ''t'' [''X'', ''Y'', ''Z''] ''Python'')
             = Finite (of_int n)"
      and "(of_int n :: rat) - 1 / 2 \<le> 50" and "(50 :: rat) < of_int n + 1 / 2"
    by auto
  then have "(of_int n :: rat) < of_int 51" and "(of_int 49 :: rat) < of_int n" by simp_all
  then have "n < 51" and "49 < n" by (simp_all only: of_int_less_iff)
  then have n50: "n = 50" by simp
  from m m34 n n50 show ?thesis by simp
qed

text \<open>
  C10, at an input where the code departs from it. A label is put into the pattern as it is,
  so the parentheses of the label \<^verbatim>\<open>(a)\<close> make a group of their own: capture 1 is the text
  \<^verbatim>\<open>a\<close> and not the digits, \<^verbatim>\<open>parseInt\<close> gives NaN, and the overall score of this list of
  one subtopic is NaN, which is not an integer. The other half of the claim holds: for the
  empty list the sum 0 is divided by the length 0 and the overall score is NaN.
\<close>

theorem overallScore_NaN_for_nonempty_list:
  "[''(a)''] \<noteq> []
   \<and> parseSubtopic e ''a Score: 5'' ''(a)''
       = Inr \<lparr> subtopic = ''(a)'', coverageScore = NaN, covered = False,
               evidence = ''Evidence found in transcript.'' \<rparr>
   \<and> overallScore (analyzeCoverage (completionEnv (Inr ''a Score: 5'')) ''t'' [''(a)''] ''Python'') = NaN
   \<and> \<not> isInteger (overallScore (analyzeCoverage (completionEnv (Inr ''a Score: 5'')) ''t'' [''(a)''] ''Python''))
   \<and> overallScore (analyzeCoverage (completionEnv (Inr reply)) transcript [] topicText) = NaN"
proof -
  have 1: "parseSubtopic e ''a Score: 5'' ''(a)''
       = Inr \<lparr> subtopic = ''(a)'', coverageScore = NaN, covered = False,
               evidence = ''Evidence found in transcript.'' \<rparr>"
    by (simp add: runAnalyze)
  have 2: "overallScore (analyzeCoverage (completionEnv (Inr ''a Score: 5'')) ''t'' [''(a)''] ''Python'') = NaN"
    by (simp add: runAnalyze)
  have 3: "overallScore (analyzeCoverage (completionEnv (Inr reply)) transcript [] topicText) = NaN"
    by (simp add: analyzeCoverage_def analyzeCoverageTry_def callGroq_def completionEnv_def
        successReport_def overallOf_def)
  from 1 2 3 show ?thesis by (simp add: isInteger_def)
qed


section \<open>Parsing the reply for one subtopic\<close>

text \<open>
  For labels without pattern syntax the parse is the search the specification describes; its
  example, with the labels \<^verbatim>\<open>Topic A\<close> and \<^verbatim>\<open>Topic B\<close>:
\<close>

lemma floor_111_half: "\<lfloor>(111 / 2 :: rat)\<rfloor> = 55"
  by (rule floor_unique) simp_all

lemma analyzeCoverage_topic_example:
  "analyzeCoverage
       (completionEnv (Inr ''Topic A is covered well. Score: 80\<newline>Topic B is only mentioned. Score: 30''))
       ''t'' [''Topic A'', ''Topic B''] ''Python''
     = \<lparr> overallScore = Finite 55,
         subtopicAnalysis =
           [\<lparr> subtopic = ''Topic A'', coverageScore = Finite 80, covered = True,
              evidence = ''Evidence found in transcript.'' \<rparr>,
            \<lparr> subtopic = ''Topic B'', coverageScore = Finite 30, covered = False,
              evidence = ''Evidence found in transcript.'' \<rparr>],
         summary = ''Overall coverage based on 2 subtopics.'' \<rparr>"
  by (simp add: runAnalyze floor_111_half)

lemma scorePattern_cpp_invalid: "compilePattern (scorePattern ''C++'') = Invalid"
  by (simp add: scorePattern_def runCompiler)

text \<open>
  C3, at inputs where the code departs from it. The code does not search for the label as a
  text: it puts the label into the pattern, where its characters are pattern syntax. For the
  label \<^verbatim>\<open>C++\<close> the second \<^verbatim>\<open>+\<close> has nothing to repeat, the constructor throws, and the
  whole report is the failure report although the reply lists both subtopics. For the label
  \<^verbatim>\<open>a.c\<close> the dot stands for any character, and a reply that never contains the label gives
  a match with score 70.
\<close>

theorem parseSubtopic_reads_label_as_pattern:
  "parseSubtopic e ''Subtopic: C++\<newline>Score: 80'' ''C++''
     = Inl (SyntaxError ''Invalid regular expression'')
   \<and> analyzeCoverage
       (completionEnv (Inr ''Subtopic: Variables\<newline>Score: 90\<newline>Subtopic: C++\<newline>Score: 80''))
       ''t'' [''Variables'', ''C++''] ''Python''
     = \<lparr> overallScore = Finite 0,
         subtopicAnalysis =
           [\<lparr> subtopic = ''Variables'', coverageScore = Finite 0, covered = False,
              evidence = ''Failed to analyze coverage.'' \<rparr>,
            \<lparr> subtopic = ''C++'', coverageScore = Finite 0, covered = False,
              evidence = ''Failed to analyze coverage.'' \<rparr>],
         summary = ''Failed to generate coverage analysis.'' \<rparr>
   \<and> parseSubtopic e ''abc Score: 70'' ''a.c''
     = Inr \<lparr> subtopic = ''a.c'', coverageScore = Finite 70, covered = True,
             evidence = ''Evidence found in transcript.'' \<rparr>"
proof (intro conjI)
  show "parseSubtopic e ''Subtopic: C++\<newline>Score: 80'' ''C++''
     = Inl (SyntaxError ''Invalid regular expression'')"
    by (simp add: parseSubtopic_def newRegExp_def scorePattern_cpp_invalid)
  show "analyzeCoverage
       (completionEnv (Inr ''Subtopic: Variables\<newline>Score: 90\<newline>Subtopic: C++\<newline>Score: 80''))
       ''t'' [''Variables'', ''C++''] ''Python''
     = \<lparr> overallScore = Finite 0,
         subtopicAnalysis =
           [\<lparr> subtopic = ''Variables'', coverageScore = Finite 0, covered = False,
              evidence = ''Failed to analyze coverage.'' \<rparr>,
            \<lparr> subtopic = ''C++'', coverageScore = Finite 0, covered = False,
              evidence = ''Failed to analyze coverage.'' \<rparr>],
         summary = ''Failed to generate coverage analysis.'' \<rparr>"
    by (simp add: runAnalyze)
  show "parseSubtopic e ''abc Score: 70'' ''a.c''
     = Inr \<lparr> subtopic = ''a.c'', coverageScore = Finite 70, covered = True,
             evidence = ''Evidence found in transcript.'' \<rparr>"
    by (simp add: runAnalyze)
qed


end
